theory Spec2Isabelle
  imports Main "HOL-Library.Word" "HOL-Library.Sublist" "HOL-Library.Code_Target_Nat"
begin

unbundle bit_operations_syntax

section \<open>JavaScript strings\<close>

text \<open>
  A JavaScript string is a sequence of UTF-16 code units. \<open>s.length\<close> is the number of
  code units, a regular expression without the \<open>u\<close> flag matches code units, and the
  string iterator (\<open>[...s]\<close>) walks code points: a high surrogate followed by a low
  surrogate is one element, every other code unit is one element of its own.
\<close>

type_synonym code_unit = "16 word"
type_synonym jsstring = "code_unit list"

definition js :: "string \<Rightarrow> jsstring" where
  "js s = map of_char s"

definition is_high_surrogate :: "code_unit \<Rightarrow> bool" where
  "is_high_surrogate u \<longleftrightarrow> 0xD800 \<le> u \<and> u \<le> 0xDBFF"

definition is_low_surrogate :: "code_unit \<Rightarrow> bool" where
  "is_low_surrogate u \<longleftrightarrow> 0xDC00 \<le> u \<and> u \<le> 0xDFFF"

text \<open>The string iterator: \<open>[...s]\<close>, each element given as its code point.\<close>

fun codePoints :: "jsstring \<Rightarrow> nat list" where
  "codePoints [] = []"
| "codePoints [x] = [unat x]"
| "codePoints (x # y # r) =
     (if is_high_surrogate x \<and> is_low_surrogate y
      then (0x10000 + (unat x - 0xD800) * 0x400 + (unat y - 0xDC00)) # codePoints r
      else unat x # codePoints (y # r))"

text \<open>The UTF-16 form of a list of Unicode scalar values (what a string literal denotes).\<close>

definition is_scalar :: "nat \<Rightarrow> bool" where
  "is_scalar n \<longleftrightarrow> n < 0xD800 \<or> (0xE000 \<le> n \<and> n < 0x110000)"

definition utf16_units :: "nat \<Rightarrow> jsstring" where
  "utf16_units n =
     (if n < 0x10000 then [of_nat n]
      else [of_nat (0xD800 + (n - 0x10000) div 0x400), of_nat (0xDC00 + (n - 0x10000) mod 0x400)])"

definition utf16_encode :: "nat list \<Rightarrow> jsstring" where
  "utf16_encode cps = concat (map utf16_units cps)"

text \<open>
  The class \<open>\s\<close> of a JavaScript regular expression: the white space and line
  terminator code units of ECMAScript.
\<close>

definition is_ws :: "code_unit \<Rightarrow> bool" where
  "is_ws u \<longleftrightarrow>
     u = 0x09 \<or> u = 0x0A \<or> u = 0x0B \<or> u = 0x0C \<or> u = 0x0D \<or> u = 0x20 \<or> u = 0xA0 \<or>
     u = 0x1680 \<or> (0x2000 \<le> u \<and> u \<le> 0x200A) \<or> u = 0x2028 \<or> u = 0x2029 \<or>
     u = 0x202F \<or> u = 0x205F \<or> u = 0x3000 \<or> u = 0xFEFF"

text \<open>
  JavaScript truthiness of an optional string: \<open>undefined\<close> (\<open>None\<close>) and the empty
  string are falsy. A template literal renders \<open>undefined\<close> as the text "undefined".
\<close>

definition truthy :: "jsstring option \<Rightarrow> bool" where
  "truthy v = (case v of None \<Rightarrow> False | Some s \<Rightarrow> s \<noteq> [])"

definition tmpl :: "jsstring option \<Rightarrow> jsstring" where
  "tmpl v = (case v of None \<Rightarrow> js ''undefined'' | Some s \<Rightarrow> s)"

text \<open>\<open>s.split(c)\<close> for a one-unit separator; the result is never empty.\<close>

fun split :: "code_unit \<Rightarrow> jsstring \<Rightarrow> jsstring list" where
  "split c [] = [[]]"
| "split c (x # xs) =
     (if x = c then [] # split c xs
      else (case split c xs of [] \<Rightarrow> [[x]] | p # ps \<Rightarrow> (x # p) # ps))"

section \<open>Errors\<close>

text \<open>
  What a function throws or a promise rejects with. \<open>AbortError\<close> is the
  \<open>DOMException\<close> named "AbortError" with which \<open>fetch\<close> rejects when its signal is
  aborted; a network failure of \<open>fetch\<close> is a \<open>TypeError\<close>.
\<close>

datatype js_error = TypeError jsstring | Error jsstring | SyntaxError jsstring | AbortError

section \<open>The URL pattern and \<open>calculateMessageLength\<close>\<close>

text \<open>
  The pattern \<open>/https?:\/\/[^\s]+/\<close> tried at the head of a string: the length of the
  match, if there is one. The non-white-space run is greedy and nothing follows it in
  the pattern, so the match is the whole run.
\<close>

definition url_match :: "jsstring \<Rightarrow> nat option" where
  "url_match s =
     (if prefix (js ''https://'') s \<and> takeWhile (\<lambda>u. \<not> is_ws u) (drop 8 s) \<noteq> []
      then Some (8 + length (takeWhile (\<lambda>u. \<not> is_ws u) (drop 8 s)))
      else if prefix (js ''http://'') s \<and> takeWhile (\<lambda>u. \<not> is_ws u) (drop 7 s) \<noteq> []
      then Some (7 + length (takeWhile (\<lambda>u. \<not> is_ws u) (drop 7 s)))
      else None)"

lemma url_match_pos: "url_match s = Some n \<Longrightarrow> 0 < n"
  by (auto simp: url_match_def split: if_splits)

text \<open>
  \<open>s.replace(/https?:\/\/[^\s]+/g, f)\<close>: the matches are found from left to right, each
  search starting where the previous match ended, and each is replaced by \<open>f\<close> of it.
\<close>

function replaceUrls :: "(jsstring \<Rightarrow> jsstring) \<Rightarrow> jsstring \<Rightarrow> jsstring" where
  "replaceUrls f [] = []"
| "replaceUrls f (c # cs) =
     (case url_match (c # cs) of
        None \<Rightarrow> c # replaceUrls f cs
      | Some n \<Rightarrow> f (take n (c # cs)) @ replaceUrls f (drop n (c # cs)))"
  by pat_completeness auto
termination
  by (relation "measure (\<lambda>(f, s). length s)") (auto dest: url_match_pos)

definition calculateMessageLength :: "jsstring \<Rightarrow> nat" where
  "calculateMessageLength message =
     (let urlAdjusted =
            replaceUrls (\<lambda>url. if 27 < length url then replicate 27 (of_char CHR ''x'') else url)
              message
      in length (codePoints urlAdjusted))"


section \<open>Data of the Bluesky strategy\<close>

text \<open>\<open>BlueskyOptions\<close>; a field that the caller left out is \<open>undefined\<close> (\<open>None\<close>).\<close>

record BlueskyOptions =
  "identifier" :: "jsstring option"
  password :: "jsstring option"
  host :: "jsstring option"

record BlueskyStrategy =
  MAX_MESSAGE_LENGTH :: nat
  strategy_id :: jsstring
  strategy_name :: jsstring
  options :: BlueskyOptions

text \<open>
  A parsed JSON response body, as the object properties that the strategy reads
  (\<open>BlueskySession\<close>, \<open>BlueskyResolveHandleResponse\<close>, \<open>BlueskyUploadBlobResponse\<close>,
  \<open>BlueskyCreateRecordResponse\<close> and \<open>BlueskyErrorResponse\<close> are views of it); a
  property that is not there reads as \<open>undefined\<close>.
\<close>

record BlueskyBlob =
  blob_link :: jsstring
  mimeType :: jsstring
  size :: nat

record json_body =
  did :: "jsstring option"
  accessJwt :: "jsstring option"
  blob :: "BlueskyBlob option"
  error :: "jsstring option"
  message :: "jsstring option"
  uri :: "jsstring option"
  cid :: "jsstring option"

text \<open>An argument that may be \<open>null\<close> or \<open>undefined\<close> instead of an object.\<close>

datatype 'a js_arg = Null | Undefined | Object 'a

text \<open>A facet as it goes over the wire: a byte range and its features.\<close>

record byte_slice =
  byteStart :: nat
  byteEnd :: nat

record feature =
  ftype :: jsstring
  fdid :: "jsstring option"
  furi :: "jsstring option"
  ftag :: "jsstring option"

record facet =
  index :: byte_slice
  features :: "feature list"

record detected =
  facets :: "facet list"
  text' :: jsstring

text \<open>
  \<open>PostOptions\<close> as a caller may pass them: \<open>images\<close> may be absent, an array, or
  some other value; an image's \<open>data\<close> may be absent, a \<open>Uint8Array\<close>, or some other
  value. An \<open>AbortSignal\<close> is known by its identity.
\<close>

type_synonym abort_signal = nat

datatype js_data = DataMissing | DataOther | DataBytes "8 word list"

record image =
  alt :: "jsstring option"
  data :: js_data

datatype js_images = ImagesMissing | ImagesOther | ImagesArray "image list"

record PostOptions =
  images :: js_images
  signal :: "abort_signal option"

text \<open>The body of the \<open>createRecord\<close> request (\<open>BlueskyPostBody\<close>).\<close>

record BlueskyImage =
  image_alt :: jsstring
  image_blob :: "BlueskyBlob option"
  aspectRatio :: "nat \<times> nat"

record BlueskyEmbed =
  embed_type :: jsstring
  embed_images :: "BlueskyImage list"

record BlueskyPostRecord =
  record_type :: jsstring
  record_text :: jsstring
  record_facets :: "facet list"
  createdAt :: jsstring
  embed :: "BlueskyEmbed option"

record BlueskyPostBody =
  repo :: "jsstring option"
  collection :: jsstring
  post_record :: BlueskyPostRecord

section \<open>The network\<close>

text \<open>
  A call of \<open>fetch(url, init)\<close>. The query string that \<open>URLSearchParams\<close> builds is
  kept as its list of parameters; \<open>JSON.stringify\<close> of a body is kept as the value
  that is serialised.
\<close>

datatype request_body =
    NoBody
  | CredentialsBody "jsstring option" "jsstring option"
  | BlobBody js_data
  | PostBody BlueskyPostBody

record request =
  req_url :: jsstring
  req_query :: "(jsstring \<times> jsstring) list"
  req_method :: jsstring
  req_headers :: "(jsstring \<times> jsstring) list"
  req_body :: request_body
  req_signal :: "abort_signal option"

text \<open>A \<open>Response\<close>: \<open>json\<close> is the outcome of \<open>response.json()\<close>, which may reject.\<close>

record response =
  ok :: bool
  status :: nat
  statusText :: jsstring
  json :: "js_error + json_body"

text \<open>
  The network decides the outcome of a \<open>fetch\<close> from the request and from the calls
  made before it; \<open>Inl\<close> is a rejected promise. Every asynchronous function of the
  strategy takes the list of requests made so far and returns it extended: the calls
  of one \<open>post\<close> are awaited one after the other.
\<close>

type_synonym network = "request list \<Rightarrow> request \<Rightarrow> js_error + response"

type_synonym 'a async = "request list \<Rightarrow> (js_error + 'a) \<times> request list"

definition fetch :: "network \<Rightarrow> request \<Rightarrow> response async" where
  "fetch net req tr = (net tr req, tr @ [req])"

text \<open>
  What the strategy imports or finds in its environment: the global \<open>fetch\<close>, the
  clock read by \<open>new Date().toISOString()\<close>, \<open>imageSize\<close> of the package
  \<open>image-size\<close>, and \<open>detectFacets\<close> and \<open>validatePostOptions\<close> of the modules
  \<open>../util/bluesky-facets.js\<close> and \<open>../util/options.js\<close>.
\<close>

record runtime =
  network_impl :: network
  date_now :: jsstring
  imageSize :: "js_data \<Rightarrow> js_error + nat \<times> nat"
  detectFacets_impl :: "jsstring \<Rightarrow> detected"
  validatePostOptions_impl :: "PostOptions js_arg \<Rightarrow> js_error + unit"

section \<open>Helpers of the Bluesky strategy\<close>

definition getCreateSessionUrl :: "BlueskyOptions \<Rightarrow> jsstring" where
  "getCreateSessionUrl opts =
     js ''https://'' @ tmpl (host opts) @ js ''/xrpc/com.atproto.server.createSession''"

definition getPostMessageUrl :: "BlueskyOptions \<Rightarrow> jsstring" where
  "getPostMessageUrl opts =
     js ''https://'' @ tmpl (host opts) @ js ''/xrpc/com.atproto.repo.createRecord''"

definition getUploadBlobUrl :: "BlueskyOptions \<Rightarrow> jsstring" where
  "getUploadBlobUrl opts =
     js ''https://'' @ tmpl (host opts) @ js ''/xrpc/com.atproto.repo.uploadBlob''"

definition getResolveHandleUrl :: "BlueskyOptions \<Rightarrow> jsstring" where
  "getResolveHandleUrl opts =
     js ''https://'' @ tmpl (host opts) @ js ''/xrpc/com.atproto.identity.resolveHandle''"

text \<open>A number in a template literal: its decimal digits.\<close>

function decimal :: "nat \<Rightarrow> jsstring" where
  "decimal n = (if n < 10 then [of_nat (48 + n)] else decimal (n div 10) @ [of_nat (48 + n mod 10)])"
  by pat_completeness auto
termination
  by (relation "measure id") auto

text \<open>
  The message of the error thrown on a response that is not ok:
  \<open>`${response.status} ${response.statusText}: ${what}:\n${errorBody.error} - ${errorBody.message}`\<close>.
\<close>

definition failure_message :: "response \<Rightarrow> jsstring \<Rightarrow> json_body \<Rightarrow> jsstring" where
  "failure_message response what errorBody =
     decimal (status response) @ js '' '' @ statusText response @ js '': '' @ what @ js '':'' @
     [0x0A] @ tmpl (error errorBody) @ js '' - '' @ tmpl (message errorBody)"

definition resolveHandle ::
    "network \<Rightarrow> BlueskyOptions \<Rightarrow> jsstring \<Rightarrow> abort_signal option \<Rightarrow> (jsstring option) async" where
  "resolveHandle net opts handle sig tr =
     (case fetch net
             \<lparr>req_url = getResolveHandleUrl opts, req_query = [(js ''handle'', handle)],
              req_method = js ''GET'', req_headers = [], req_body = NoBody, req_signal = sig\<rparr> tr of
        (Inl e, tr') \<Rightarrow> (Inl e, tr')
      | (Inr response, tr') \<Rightarrow>
          if ok response then
            (case json response of
               Inl e \<Rightarrow> (Inl e, tr')
             | Inr result \<Rightarrow> (Inr (did result), tr'))
          else
            (case json response of
               Inl e \<Rightarrow> (Inl e, tr')
             | Inr errorBody \<Rightarrow>
                 (Inl (Error (failure_message response
                    (js ''Failed to resolve handle '' @ [0x22] @ handle @ [0x22]) errorBody)), tr')))"

definition uploadImage ::
    "network \<Rightarrow> BlueskyOptions \<Rightarrow> json_body \<Rightarrow> js_data \<Rightarrow> abort_signal option \<Rightarrow> json_body async" where
  "uploadImage net opts session imageData sig tr =
     (case fetch net
             \<lparr>req_url = getUploadBlobUrl opts, req_query = [], req_method = js ''POST'',
              req_headers = [(js ''Content-Type'', js ''*/*''),
                             (js ''Authorization'', js ''Bearer '' @ tmpl (accessJwt session))],
              req_body = BlobBody imageData, req_signal = sig\<rparr> tr of
        (Inl e, tr') \<Rightarrow> (Inl e, tr')
      | (Inr response, tr') \<Rightarrow>
          if ok response then
            (case json response of
               Inl e \<Rightarrow> (Inl e, tr')
             | Inr result \<Rightarrow> (Inr result, tr'))
          else
            (case json response of
               Inl e \<Rightarrow> (Inl e, tr')
             | Inr errorBody \<Rightarrow>
                 (Inl (Error (failure_message response (js ''Failed to upload image'') errorBody)),
                  tr')))"

text \<open>
  The test of \<open>resolveMentionFacets\<close> on a feature,
  \<open>feature.$type === "app.bsky.richtext.facet#mention" && feature.did\<close>: the handle to
  look up, if the feature is a mention that carries a non-empty one.
\<close>

definition mention_handle :: "feature \<Rightarrow> jsstring option" where
  "mention_handle f =
     (if ftype f = js ''app.bsky.richtext.facet#mention'' \<and> truthy (fdid f) then fdid f else None)"

text \<open>
  The inner loop of \<open>resolveMentionFacets\<close> over the features of one facet;
  \<open>processedFeatures\<close> is the array that the loop pushes to. A lookup that throws,
  whatever it throws, is caught and the feature is skipped.
\<close>

fun resolveFeatures ::
    "network \<Rightarrow> BlueskyOptions \<Rightarrow> abort_signal option \<Rightarrow> feature list \<Rightarrow> feature list \<Rightarrow>
     request list \<Rightarrow> feature list \<times> request list" where
  "resolveFeatures net opts sig [] processedFeatures tr = (processedFeatures, tr)"
| "resolveFeatures net opts sig (f # rest) processedFeatures tr =
     (case mention_handle f of
        Some handle \<Rightarrow>
          (case resolveHandle net opts handle sig tr of
             (Inr d, tr') \<Rightarrow>
               resolveFeatures net opts sig rest (processedFeatures @ [f\<lparr>fdid := d\<rparr>]) tr'
           | (Inl e, tr') \<Rightarrow> resolveFeatures net opts sig rest processedFeatures tr')
      | None \<Rightarrow> resolveFeatures net opts sig rest (processedFeatures @ [f]) tr)"

text \<open>The outer loop; \<open>processedFacets\<close> is the array that is returned.\<close>

fun resolveFacets ::
    "network \<Rightarrow> BlueskyOptions \<Rightarrow> abort_signal option \<Rightarrow> facet list \<Rightarrow> facet list \<Rightarrow>
     request list \<Rightarrow> facet list \<times> request list" where
  "resolveFacets net opts sig [] processedFacets tr = (processedFacets, tr)"
| "resolveFacets net opts sig (fc # rest) processedFacets tr =
     (case resolveFeatures net opts sig (features fc) [] tr of
        (processedFeatures, tr') \<Rightarrow>
          if 0 < length processedFeatures
          then resolveFacets net opts sig rest
                 (processedFacets @ [fc\<lparr>features := processedFeatures\<rparr>]) tr'
          else resolveFacets net opts sig rest processedFacets tr')"

definition resolveMentionFacets ::
    "network \<Rightarrow> BlueskyOptions \<Rightarrow> facet list \<Rightarrow> abort_signal option \<Rightarrow>
     request list \<Rightarrow> facet list \<times> request list" where
  "resolveMentionFacets net opts fcs sig tr = resolveFacets net opts sig fcs [] tr"

definition createSession ::
    "network \<Rightarrow> BlueskyOptions \<Rightarrow> abort_signal option \<Rightarrow> json_body async" where
  "createSession net opts sig tr =
     (case fetch net
             \<lparr>req_url = getCreateSessionUrl opts, req_query = [], req_method = js ''POST'',
              req_headers = [(js ''Content-Type'', js ''application/json'')],
              req_body = CredentialsBody (identifier opts) (password opts),
              req_signal = sig\<rparr> tr of
        (Inl e, tr') \<Rightarrow> (Inl e, tr')
      | (Inr response, tr') \<Rightarrow>
          if ok response then
            (case json response of
               Inl e \<Rightarrow> (Inl e, tr')
             | Inr session \<Rightarrow> (Inr session, tr'))
          else
            (case json response of
               Inl e \<Rightarrow> (Inl e, tr')
             | Inr errorBody \<Rightarrow>
                 (Inl (Error (failure_message response (js ''Failed to create session'') errorBody)),
                  tr')))"

text \<open>\<open>postOptions?.signal\<close> and \<open>postOptions?.images?.length\<close>.\<close>

definition signal_of :: "PostOptions js_arg \<Rightarrow> abort_signal option" where
  "signal_of postOptions = (case postOptions of Object p \<Rightarrow> signal p | _ \<Rightarrow> None)"

definition images_of :: "PostOptions js_arg \<Rightarrow> image list" where
  "images_of postOptions =
     (case postOptions of
        Object p \<Rightarrow> (case images p of ImagesArray imgs \<Rightarrow> imgs | _ \<Rightarrow> [])
      | _ \<Rightarrow> [])"

text \<open>
  The loop of \<open>postMessage\<close> over the images: upload, read the size from the image
  header, push. An upload or an \<open>imageSize\<close> that throws ends the post.
\<close>

fun uploadImages ::
    "runtime \<Rightarrow> BlueskyOptions \<Rightarrow> json_body \<Rightarrow> abort_signal option \<Rightarrow> image list \<Rightarrow>
     BlueskyImage list \<Rightarrow> (BlueskyImage list) async" where
  "uploadImages rt opts session sig [] imgs tr = (Inr imgs, tr)"
| "uploadImages rt opts session sig (img # rest) imgs tr =
     (case uploadImage (network_impl rt) opts session (data img) sig tr of
        (Inl e, tr') \<Rightarrow> (Inl e, tr')
      | (Inr result, tr') \<Rightarrow>
          (case imageSize rt (data img) of
             Inl e \<Rightarrow> (Inl e, tr')
           | Inr wh \<Rightarrow>
               uploadImages rt opts session sig rest
                 (imgs @ [\<lparr>image_alt = (if truthy (alt img) then tmpl (alt img) else []),
                            image_blob = blob result, aspectRatio = wh\<rparr>]) tr'))"

definition postMessage ::
    "runtime \<Rightarrow> BlueskyOptions \<Rightarrow> json_body \<Rightarrow> jsstring \<Rightarrow> PostOptions js_arg \<Rightarrow>
     json_body async" where
  "postMessage rt opts session msg postOptions tr =
     (let url = getPostMessageUrl opts;
          rawFacets = facets (detectFacets_impl rt msg);
          truncatedMessage = text' (detectFacets_impl rt msg)
      in case resolveMentionFacets (network_impl rt) opts rawFacets (signal_of postOptions) tr of
           (fcs, tr1) \<Rightarrow>
             (let body = \<lparr>repo = did session, collection = js ''app.bsky.feed.post'',
                          post_record =
                            \<lparr>record_type = js ''app.bsky.feed.post'',
                             record_text = truncatedMessage, record_facets = fcs,
                             createdAt = date_now rt, embed = None\<rparr>\<rparr>
              in case (if 0 < length (images_of postOptions)
                       then (case uploadImages rt opts session (signal_of postOptions)
                                    (images_of postOptions) [] tr1 of
                               (Inl e, tr2) \<Rightarrow> (Inl e, tr2)
                             | (Inr imgs, tr2) \<Rightarrow>
                                 (Inr (if 0 < length imgs
                                       then body\<lparr>post_record := (post_record body)
                                              \<lparr>embed := Some \<lparr>embed_type = js ''app.bsky.embed.images'',
                                                               embed_images = imgs\<rparr>\<rparr>\<rparr>
                                       else body), tr2))
                       else (Inr body, tr1)) of
                   (Inl e, tr2) \<Rightarrow> (Inl e, tr2)
                 | (Inr body', tr2) \<Rightarrow>
                     (case fetch (network_impl rt)
                             \<lparr>req_url = url, req_query = [], req_method = js ''POST'',
                              req_headers =
                                [(js ''Content-Type'', js ''application/json''),
                                 (js ''Authorization'', js ''Bearer '' @ tmpl (accessJwt session))],
                              req_body = PostBody body',
                              req_signal = signal_of postOptions\<rparr> tr2 of
                        (Inl e, tr3) \<Rightarrow> (Inl e, tr3)
                      | (Inr response, tr3) \<Rightarrow>
                          if ok response then
                            (case json response of
                               Inl e \<Rightarrow> (Inl e, tr3)
                             | Inr result \<Rightarrow> (Inr result, tr3))
                          else
                            (case json response of
                               Inl e \<Rightarrow> (Inl e, tr3)
                             | Inr errorBody \<Rightarrow>
                                 (Inl (Error (failure_message response
                                    (js ''Failed to post message'') errorBody)), tr3)))))"

section \<open>The class \<open>BlueskyStrategy\<close>\<close>

text \<open>The constructor: \<open>Inl\<close> is the error that \<open>new BlueskyStrategy(options)\<close> throws.\<close>

definition new_BlueskyStrategy :: "BlueskyOptions \<Rightarrow> js_error + BlueskyStrategy" where
  "new_BlueskyStrategy opts =
     (if \<not> truthy (identifier opts) then Inl (TypeError (js ''Missing identifier.''))
      else if \<not> truthy (password opts) then Inl (TypeError (js ''Missing password.''))
      else if \<not> truthy (host opts) then Inl (TypeError (js ''Missing host.''))
      else Inr \<lparr>MAX_MESSAGE_LENGTH = 300, strategy_id = js ''bluesky'',
                strategy_name = js ''Bluesky'', options = opts\<rparr>)"

definition post ::
    "runtime \<Rightarrow> BlueskyStrategy \<Rightarrow> jsstring option \<Rightarrow> PostOptions js_arg \<Rightarrow> json_body async" where
  "post rt this msg postOptions tr =
     (case (if truthy msg then msg else None) of
        None \<Rightarrow> (Inl (TypeError (js ''Missing message to post.'')), tr)
      | Some m \<Rightarrow>
          (case validatePostOptions_impl rt postOptions of
             Inl e \<Rightarrow> (Inl e, tr)
           | Inr u \<Rightarrow>
               (case createSession (network_impl rt) (options this) (signal_of postOptions) tr of
                  (Inl e, tr') \<Rightarrow> (Inl e, tr')
                | (Inr session, tr') \<Rightarrow> postMessage rt (options this) session m postOptions tr')))"

definition getUrlFromResponse :: "BlueskyStrategy \<Rightarrow> json_body js_arg \<Rightarrow> js_error + jsstring" where
  "getUrlFromResponse this response =
     (case (case response of Object r \<Rightarrow> (if truthy (uri r) then uri r else None) | _ \<Rightarrow> None) of
        None \<Rightarrow> Inl (Error (js ''Post URI not found in response''))
      | Some u \<Rightarrow>
          (let parts = split (of_char CHR ''/'') u;
               recordId = (if parts = [] then None else Some (last parts))
           in Inr (js ''https://bsky.app/profile/'' @ tmpl (identifier (options this)) @
                   js ''/post/'' @ tmpl recordId)))"


section \<open>The display length, token by token\<close>

text \<open>
  The message cut at the matches of the URL pattern: the URL tokens, and the runs of
  text between them. The function that \<open>calculateMessageLength\<close> passes to \<open>replace\<close>
  tests \<open>url.length > 27\<close>, the number of UTF-16 code units of the match, so a URL token
  of more than 27 code units contributes 27 to the display length; every other token
  contributes its number of code points.
\<close>

datatype token = Plain jsstring | UrlTok jsstring

fun token_text :: "token \<Rightarrow> jsstring" where
  "token_text (Plain t) = t"
| "token_text (UrlTok u) = u"

fun add_plain :: "code_unit \<Rightarrow> token list \<Rightarrow> token list" where
  "add_plain c (Plain t # ts) = Plain (c # t) # ts"
| "add_plain c ts = Plain [c] # ts"

function url_tokens :: "jsstring \<Rightarrow> token list" where
  "url_tokens [] = []"
| "url_tokens (c # cs) =
     (case url_match (c # cs) of
        None \<Rightarrow> add_plain c (url_tokens cs)
      | Some n \<Rightarrow> UrlTok (take n (c # cs)) # url_tokens (drop n (c # cs)))"
  by pat_completeness auto
termination
  by (relation "measure length") (auto dest: url_match_pos)

fun contribution :: "token \<Rightarrow> nat" where
  "contribution (Plain t) = length (codePoints t)"
| "contribution (UrlTok u) = (if 27 < length u then 27 else length (codePoints u))"

definition starts_low :: "jsstring \<Rightarrow> bool" where
  "starts_low s = (case s of [] \<Rightarrow> False | x # _ \<Rightarrow> is_low_surrogate x)"

fun tokens_start_low :: "token list \<Rightarrow> bool" where
  "tokens_start_low (Plain t # ts) = starts_low t"
| "tokens_start_low ts = False"

text \<open>The function that \<open>calculateMessageLength\<close> passes to \<open>replace\<close>.\<close>

definition placeholder :: "jsstring \<Rightarrow> jsstring" where
  "placeholder url = (if 27 < length url then replicate 27 (of_char CHR ''x'') else url)"

section \<open>Validation of the post options\<close>

text \<open>
  Modelled from the spec: \<open>validatePostOptions\<close> of \<open>src/util/options.js\<close>, which is
  not among the sources. Section 4.5, "Call-time validation: non-empty message; any
  supplied image must carry a concrete binary payload, rejected before network calls
  otherwise"; the three rejections and their messages are the ones that the tests of the
  strategy expect (\<open>images\<close> that is not an array, an image without \<open>data\<close>, \<open>data\<close>
  that is not a \<open>Uint8Array\<close>). Options that are absent, or have no images, pass.
\<close>

fun validateImages :: "image list \<Rightarrow> js_error + unit" where
  "validateImages [] = Inr ()"
| "validateImages (img # rest) =
     (case data img of
        DataMissing \<Rightarrow> Inl (TypeError (js ''Image must have data.''))
      | DataOther \<Rightarrow> Inl (TypeError (js ''Image data must be a Uint8Array.''))
      | DataBytes b \<Rightarrow> validateImages rest)"

definition validatePostOptions :: "PostOptions js_arg \<Rightarrow> js_error + unit" where
  "validatePostOptions postOptions =
     (case postOptions of
        Object p \<Rightarrow>
          (case images p of
             ImagesMissing \<Rightarrow> Inr ()
           | ImagesOther \<Rightarrow> Inl (TypeError (js ''images must be an array.''))
           | ImagesArray imgs \<Rightarrow> validateImages imgs)
      | _ \<Rightarrow> Inr ())"

definition is_bytes :: "js_data \<Rightarrow> bool" where
  "is_bytes d = (case d of DataBytes b \<Rightarrow> True | _ \<Rightarrow> False)"

section \<open>Names for the requests and outcomes of a post\<close>

text \<open>
  The request that \<open>createSession\<close> sends, the request that \<open>postMessage\<close> sends last,
  the body of that request, and the result that the three functions \<open>createSession\<close>,
  \<open>uploadImage\<close> and \<open>postMessage\<close> make of the outcome of their \<open>fetch\<close>. They are the
  literals of the source, named so that properties can speak of them.
\<close>

definition session_request :: "BlueskyOptions \<Rightarrow> abort_signal option \<Rightarrow> request" where
  "session_request opts sig =
     \<lparr>req_url = getCreateSessionUrl opts, req_query = [], req_method = js ''POST'',
      req_headers = [(js ''Content-Type'', js ''application/json'')],
      req_body = CredentialsBody (identifier opts) (password opts), req_signal = sig\<rparr>"

definition record_request ::
    "BlueskyOptions \<Rightarrow> json_body \<Rightarrow> abort_signal option \<Rightarrow> BlueskyPostBody \<Rightarrow> request" where
  "record_request opts session sig body =
     \<lparr>req_url = getPostMessageUrl opts, req_query = [], req_method = js ''POST'',
      req_headers = [(js ''Content-Type'', js ''application/json''),
                     (js ''Authorization'', js ''Bearer '' @ tmpl (accessJwt session))],
      req_body = PostBody body, req_signal = sig\<rparr>"

definition post_body ::
    "runtime \<Rightarrow> json_body \<Rightarrow> jsstring \<Rightarrow> facet list \<Rightarrow> BlueskyImage list \<Rightarrow> BlueskyPostBody" where
  "post_body rt session msg fcs imgs =
     \<lparr>repo = did session, collection = js ''app.bsky.feed.post'',
      post_record =
        \<lparr>record_type = js ''app.bsky.feed.post'',
         record_text = text' (detectFacets_impl rt msg), record_facets = fcs,
         createdAt = date_now rt,
         embed = (if imgs = [] then None
                  else Some \<lparr>embed_type = js ''app.bsky.embed.images'', embed_images = imgs\<rparr>)\<rparr>\<rparr>"

definition outcome_of :: "jsstring \<Rightarrow> js_error + response \<Rightarrow> js_error + json_body" where
  "outcome_of what r =
     (case r of
        Inl e \<Rightarrow> Inl e
      | Inr response \<Rightarrow>
          (case json response of
             Inl e \<Rightarrow> Inl e
           | Inr b \<Rightarrow> if ok response then Inr b else Inl (Error (failure_message response what b))))"

text \<open>
  What \<open>fetch\<close> does with an \<open>AbortSignal\<close>: once the signal \<open>s\<close> has fired, a call
  that carries it rejects with the \<open>AbortError\<close>, whether it was in flight at that moment
  or is made later. \<open>aborted_from net s k\<close> says that the signal fires while call number
  \<open>k\<close> is in flight.
\<close>

definition aborted_from :: "network \<Rightarrow> abort_signal \<Rightarrow> nat \<Rightarrow> bool" where
  "aborted_from net s k \<longleftrightarrow>
     (\<forall>tr req. k \<le> length tr \<and> req_signal req = Some s \<longrightarrow> net tr req = Inl AbortError)"

section \<open>Example values\<close>

definition example_options :: BlueskyOptions where
  "example_options =
     \<lparr>identifier = Some (js ''testuser''), password = Some (js ''password''),
      host = Some (js ''test.social'')\<rparr>"

definition example_strategy :: BlueskyStrategy where
  "example_strategy =
     \<lparr>MAX_MESSAGE_LENGTH = 300, strategy_id = js ''bluesky'', strategy_name = js ''Bluesky'',
      options = example_options\<rparr>"

definition body_with_uri :: "jsstring option \<Rightarrow> json_body" where
  "body_with_uri u =
     \<lparr>did = None, accessJwt = None, blob = None, error = None, message = None, uri = u,
      cid = None\<rparr>"

definition example_session :: json_body where
  "example_session =
     \<lparr>did = Some (js ''did:plc:rzf7l6olyl67yfy2jwufdq7f''), accessJwt = Some (js ''foobar''),
      blob = None, error = None, message = None, uri = None, cid = None\<rparr>"

definition ok_response :: "json_body \<Rightarrow> response" where
  "ok_response b = \<lparr>ok = True, status = 200, statusText = js ''OK'', json = Inr b\<rparr>"

text \<open>A network that answers every request with 200 and the body \<open>b\<close>.\<close>

definition only_ok_network :: "json_body \<Rightarrow> network" where
  "only_ok_network b tr req = Inr (ok_response b)"

text \<open>A network on which the signal 7 fires while the second call is in flight.\<close>

definition aborting_network :: network where
  "aborting_network tr req =
     (if 1 \<le> length tr \<and> req_signal req = Some 7 then Inl AbortError
      else Inr (ok_response example_session))"

text \<open>A runtime whose \<open>detectFacets\<close> finds nothing.\<close>

definition example_runtime :: "network \<Rightarrow> runtime" where
  "example_runtime net =
     \<lparr>network_impl = net, date_now = js ''2025-01-01T00:00:00.000Z'',
      imageSize = (\<lambda>d. Inr (20, 19)),
      detectFacets_impl = (\<lambda>m. \<lparr>facets = [], text' = m\<rparr>),
      validatePostOptions_impl = validatePostOptions\<rparr>"

text \<open>A message of 301 characters.\<close>

definition long_message :: jsstring where
  "long_message = replicate 301 (of_char CHR ''a'')"

text \<open>
  Mention facets, a response for a handle that is not found, and a network that knows the
  handle "alice" and no other.
\<close>

definition mention_feature :: "jsstring \<Rightarrow> feature" where
  "mention_feature handle =
     \<lparr>ftype = js ''app.bsky.richtext.facet#mention'', fdid = Some handle, furi = None,
      ftag = None\<rparr>"

definition mention_facet :: "nat \<Rightarrow> nat \<Rightarrow> jsstring \<Rightarrow> facet" where
  "mention_facet s e handle =
     \<lparr>index = \<lparr>byteStart = s, byteEnd = e\<rparr>, features = [mention_feature handle]\<rparr>"

definition not_found_response :: response where
  "not_found_response =
     \<lparr>ok = False, status = 400, statusText = js ''Bad Request'',
      json = Inr \<lparr>did = None, accessJwt = None, blob = None,
                  error = Some (js ''InvalidRequest''), message = Some (js ''Handle not found''),
                  uri = None, cid = None\<rparr>\<rparr>"

definition mention_network :: network where
  "mention_network tr req =
     (if req_url req = getResolveHandleUrl example_options then
        (if req_query req = [(js ''handle'', js ''alice'')]
         then Inr (ok_response (example_session\<lparr>did := Some (js ''did:plc:alice123'')\<rparr>))
         else Inr not_found_response)
      else if req_url req = getPostMessageUrl example_options then
        Inr (ok_response (body_with_uri (Some (js ''at://did:plc:abcxyz/app.bsky.feed.post/abcxyz''))))
      else Inr (ok_response example_session))"

definition mention_runtime :: runtime where
  "mention_runtime =
     \<lparr>network_impl = mention_network, date_now = js ''2025-01-01T00:00:00.000Z'',
      imageSize = (\<lambda>d. Inr (20, 19)),
      detectFacets_impl =
        (\<lambda>m. \<lparr>facets = [mention_facet 6 12 (js ''alice''), mention_facet 17 29 (js ''nonexistent'')],
              text' = m\<rparr>),
      validatePostOptions_impl = validatePostOptions\<rparr>"

text \<open>The request that \<open>resolveHandle\<close> sends.\<close>

definition lookup_request :: "BlueskyOptions \<Rightarrow> jsstring \<Rightarrow> abort_signal option \<Rightarrow> request" where
  "lookup_request opts handle sig =
     \<lparr>req_url = getResolveHandleUrl opts, req_query = [(js ''handle'', handle)],
      req_method = js ''GET'', req_headers = [], req_body = NoBody, req_signal = sig\<rparr>"

section \<open>The broadcaster\<close>

text \<open>
  Modelled from the spec: \<open>Client.post\<close> of \<open>src/client.js\<close>, which is not among the
  sources (the command line program that calls it is). Section 4.1: "Given an ordered
  adapter list and a message, invokes each adapter's post independently and
  concurrently, waits for all to settle, and returns an ordered outcome array aligned
  index-for-index with the input, regardless of completion order"; section 5: "results
  must be joined and re-sequenced, never just collected in completion order"; section 6:
  the output is an ordered list of \<open>{ok:true,url,response} | {ok:false,reason}\<close>.

  An adapter is the interface of section 4.5. Each adapter owns its session and its
  network calls and shares no state with another (section 5), so what its \<open>post\<close>
  settles to is a function of the message and the options. The calls complete in some
  order, given as the list of the adapters' indices in order of completion; the
  broadcaster has one slot for each adapter, fills the slot of a call when that call
  settles, and returns the slots once none is empty (\<open>None\<close>: it is still waiting).
\<close>

record 'r adapter =
  adapter_id :: jsstring
  adapter_name :: jsstring
  adapter_post :: "jsstring \<Rightarrow> PostOptions js_arg \<Rightarrow> js_error + 'r"
  adapter_getUrlFromResponse :: "'r \<Rightarrow> jsstring option"

datatype 'r post_result =
    Success (result_url: "jsstring option") (result_response: 'r)
  | Failure (result_reason: js_error)

definition outcome :: "'r adapter \<Rightarrow> jsstring \<Rightarrow> PostOptions js_arg \<Rightarrow> 'r post_result" where
  "outcome a msg po =
     (case adapter_post a msg po of
        Inl e \<Rightarrow> Failure e
      | Inr r \<Rightarrow> Success (adapter_getUrlFromResponse a r) r)"

fun settle_all ::
    "'r adapter list \<Rightarrow> jsstring \<Rightarrow> PostOptions js_arg \<Rightarrow> nat list \<Rightarrow>
     'r post_result option list \<Rightarrow> 'r post_result option list" where
  "settle_all adapters msg po [] slots = slots"
| "settle_all adapters msg po (i # completions) slots =
     settle_all adapters msg po completions
       (if i < length slots then slots[i := Some (outcome (adapters ! i) msg po)] else slots)"

fun join :: "'a option list \<Rightarrow> 'a list option" where
  "join [] = Some []"
| "join (None # xs) = None"
| "join (Some x # xs) = (case join xs of None \<Rightarrow> None | Some ys \<Rightarrow> Some (x # ys))"

definition broadcast ::
    "'r adapter list \<Rightarrow> jsstring \<Rightarrow> PostOptions js_arg \<Rightarrow> nat list \<Rightarrow> 'r post_result list option" where
  "broadcast adapters msg po completions =
     join (settle_all adapters msg po completions (replicate (length adapters) None))"

text \<open>
  The loop of the command line program over the responses of \<open>client.post\<close>
  (\<open>responses.forEach((response, index) => ...)\<close>): for a success it logs the name of
  \<open>strategies[index]\<close> and \<open>response.url ?? response.response\<close>, for a failure it
  sets the exit code to 1 and logs the name and the reason. \<open>report\<close> returns what was
  logged and the exit code. Where there are more responses than strategies,
  \<open>strategies[index]\<close> is \<open>undefined\<close> and reading its \<open>name\<close> throws: the result is
  then what was logged before, and the error.
\<close>

datatype 'r console_entry = Log jsstring | LogResponse 'r | LogError js_error

definition entry_lines :: "'r adapter \<Rightarrow> 'r post_result \<Rightarrow> 'r console_entry list" where
  "entry_lines strategy response =
     (case response of
        Success u r \<Rightarrow>
          [Log ([0x2705] @ js '' '' @ adapter_name strategy @ js '' succeeded.''),
           (case u of Some v \<Rightarrow> Log v | None \<Rightarrow> LogResponse r),
           Log []]
      | Failure reason \<Rightarrow>
          [Log ([0x274C] @ js '' '' @ adapter_name strategy @ js '' failed.''),
           LogError reason,
           Log []])"

fun report ::
    "'r adapter list \<Rightarrow> 'r post_result list \<Rightarrow> nat \<Rightarrow> nat \<Rightarrow>
     'r console_entry list \<times> js_error + 'r console_entry list \<times> nat" where
  "report strategies [] idx exitCode = Inr ([], exitCode)"
| "report strategies (response # rest) idx exitCode =
     (if idx < length strategies then
        (case report strategies rest (Suc idx)
                (case response of Success u r \<Rightarrow> exitCode | Failure reason \<Rightarrow> 1) of
           Inl (out, e) \<Rightarrow> Inl (entry_lines (strategies ! idx) response @ out, e)
         | Inr (out, code) \<Rightarrow> Inr (entry_lines (strategies ! idx) response @ out, code))
      else Inl ([], TypeError (js ''Cannot read properties of undefined (reading '' @ [0x27] @
                                 js ''name'' @ [0x27] @ js '')'')))"

definition is_failure :: "'r post_result \<Rightarrow> bool" where
  "is_failure r = (case r of Failure reason \<Rightarrow> True | _ \<Rightarrow> False)"

text \<open>An adapter that succeeds and an adapter that fails.\<close>

definition echo_adapter :: "jsstring \<Rightarrow> json_body adapter" where
  "echo_adapter n =
     \<lparr>adapter_id = n, adapter_name = n,
      adapter_post = (\<lambda>msg po. Inr (body_with_uri (Some (n @ js ''/'' @ msg)))),
      adapter_getUrlFromResponse = uri\<rparr>"

definition failing_adapter :: "jsstring \<Rightarrow> json_body adapter" where
  "failing_adapter n =
     \<lparr>adapter_id = n, adapter_name = n,
      adapter_post = (\<lambda>msg po. Inl (Error (js ''Failed to post''))),
      adapter_getUrlFromResponse = uri\<rparr>"

section \<open>UTF-8\<close>

text \<open>
  The UTF-8 bytes of a string, as \<open>TextEncoder\<close> gives them: the string is read by code
  point, and a surrogate that has no partner is encoded as U+FFFD.
\<close>

definition utf8_bytes :: "nat \<Rightarrow> 8 word list" where
  "utf8_bytes n =
     (if n < 0x80 then [of_nat n]
      else if n < 0x800 then [of_nat (0xC0 + n div 0x40), of_nat (0x80 + n mod 0x40)]
      else if 0xD800 \<le> n \<and> n \<le> 0xDFFF then [0xEF, 0xBF, 0xBD]
      else if n < 0x10000 then
        [of_nat (0xE0 + n div 0x1000), of_nat (0x80 + n div 0x40 mod 0x40),
         of_nat (0x80 + n mod 0x40)]
      else
        [of_nat (0xF0 + n div 0x40000), of_nat (0x80 + n div 0x1000 mod 0x40),
         of_nat (0x80 + n div 0x40 mod 0x40), of_nat (0x80 + n mod 0x40)])"

definition utf8 :: "jsstring \<Rightarrow> 8 word list" where
  "utf8 s = concat (map utf8_bytes (codePoints s))"

definition byteLength :: "jsstring \<Rightarrow> nat" where
  "byteLength s = length (utf8 s)"

definition cp_size :: "nat \<Rightarrow> nat" where
  "cp_size n = length (utf8_bytes n)"

section \<open>The facet detector\<close>

text \<open>
  Modelled from the spec: \<open>detectFacets\<close> of \<open>src/util/bluesky-facets.js\<close>, which is
  not among the sources (its caller \<open>postMessage\<close> and the tests of the strategy are).
  Section 4.2: the detector "scans plain, unmarked text for: bare URLs (http/https scheme
  followed by a non-whitespace token), mentions (@ + handle grammar allowing domain-like
  suffixes, e.g. @alice, @bob.example.com), and hashtags where supported. Overlap
  policy: longest match wins; once a span is claimed, overlapping candidates are
  discarded. Offsets are computed against the UTF-8 byte sequence of the (possibly
  truncation-rewritten) text. Returns (possibly-rewritten-text, facetList); rewriting
  happens only via the URL-truncation transform, and a facet's target always carries the
  original, untruncated URL/handle". Section 4.3: a URL longer than the threshold 27 is
  "for transmitted text, rendered as its first threshold-3 characters plus a 3-character
  ellipsis marker".

  Where the spec leaves a choice open, the model takes this one:
  \<^item> a URL is a match of the pattern that \<open>calculateMessageLength\<close> uses, and its raw
    character length is its number of UTF-16 code units, as it is there;
  \<^item> a handle is a run of letters, digits, "." and "-" that ends in a letter or a digit
    (so the "!" and the "." after a mention are not part of it);
  \<^item> a hashtag is "#" and a run of letters, digits and "_";
  \<^item> among candidates of the same length, links go before mentions and mentions before
    hashtags, and an earlier span before a later one;
  \<^item> a facet has the shape that \<open>resolveMentionFacets\<close> and the tests expect: a link
    carries the URL as \<open>uri\<close>, a mention the handle without "@" as \<open>did\<close>, a hashtag the
    tag without "#" as \<open>tag\<close>.
\<close>

datatype facet_kind = Link | Mention | Hashtag

text \<open>A candidate span: its kind, where it starts in the text and how long it is.\<close>

datatype candidate = Candidate (c_kind: facet_kind) (c_start: nat) (c_len: nat)

definition is_alnum :: "code_unit \<Rightarrow> bool" where
  "is_alnum u \<longleftrightarrow> (0x30 \<le> u \<and> u \<le> 0x39) \<or> (0x41 \<le> u \<and> u \<le> 0x5A) \<or> (0x61 \<le> u \<and> u \<le> 0x7A)"

definition is_handle_char :: "code_unit \<Rightarrow> bool" where
  "is_handle_char u \<longleftrightarrow> is_alnum u \<or> u = of_char CHR ''.'' \<or> u = of_char CHR ''-''"

definition is_tag_char :: "code_unit \<Rightarrow> bool" where
  "is_tag_char u \<longleftrightarrow> is_alnum u \<or> u = of_char CHR ''_''"

definition handle_of :: "jsstring \<Rightarrow> jsstring" where
  "handle_of s = rev (dropWhile (\<lambda>u. \<not> is_alnum u) (rev (takeWhile is_handle_char s)))"

text \<open>The mention and the hashtag pattern tried at the head of a string.\<close>

definition mention_match :: "jsstring \<Rightarrow> nat option" where
  "mention_match s =
     (case s of
        [] \<Rightarrow> None
      | c # rest \<Rightarrow>
          if c = of_char CHR ''@'' \<and> handle_of rest \<noteq> [] then Some (1 + length (handle_of rest))
          else None)"

definition hashtag_match :: "jsstring \<Rightarrow> nat option" where
  "hashtag_match s =
     (case s of
        [] \<Rightarrow> None
      | c # rest \<Rightarrow>
          if c = of_char CHR ''#'' \<and> takeWhile is_tag_char rest \<noteq> []
          then Some (1 + length (takeWhile is_tag_char rest))
          else None)"

text \<open>
  All matches of a pattern from left to right, each search starting where the previous
  match ended; \<open>pos\<close> is the position of the head of the remaining text.
\<close>

function scan :: "(jsstring \<Rightarrow> nat option) \<Rightarrow> facet_kind \<Rightarrow> nat \<Rightarrow> jsstring \<Rightarrow> candidate list" where
  "scan m k pos [] = []"
| "scan m k pos (c # cs) =
     (case m (c # cs) of
        None \<Rightarrow> scan m k (Suc pos) cs
      | Some n \<Rightarrow>
          if 0 < n then Candidate k pos n # scan m k (pos + n) (drop n (c # cs))
          else scan m k (Suc pos) cs)"
  by pat_completeness auto
termination
  by (relation "measure (\<lambda>(m, k, pos, s). length s)") auto

definition candidates :: "jsstring \<Rightarrow> candidate list" where
  "candidates t = scan url_match Link 0 t @ scan mention_match Mention 0 t @ scan hashtag_match Hashtag 0 t"

text \<open>
  The overlap policy: the candidates are taken longest first, and a candidate is claimed
  unless it overlaps a span that is claimed already. The claimed spans are then put in
  the order of the text.
\<close>

definition overlaps :: "candidate \<Rightarrow> candidate \<Rightarrow> bool" where
  "overlaps a b \<longleftrightarrow> c_start a < c_start b + c_len b \<and> c_start b < c_start a + c_len a"

fun claim :: "candidate list \<Rightarrow> candidate list \<Rightarrow> candidate list" where
  "claim claimed [] = claimed"
| "claim claimed (c # cs) =
     claim (if list_ex (overlaps c) claimed then claimed else claimed @ [c]) cs"

definition claimed_spans :: "jsstring \<Rightarrow> candidate list" where
  "claimed_spans t =
     sort_key c_start (claim [] (sort_key (\<lambda>c. - int (c_len c)) (candidates t)))"

text \<open>The URL-truncation transform, and what the transmitted text shows for a token.\<close>

definition truncateUrl :: "jsstring \<Rightarrow> jsstring" where
  "truncateUrl url = (if 27 < length url then take (27 - 3) url @ js ''...'' else url)"

definition shown :: "facet_kind \<Rightarrow> jsstring \<Rightarrow> jsstring" where
  "shown k tok = (case k of Link \<Rightarrow> truncateUrl tok | _ \<Rightarrow> tok)"

definition feature_of :: "facet_kind \<Rightarrow> jsstring \<Rightarrow> feature" where
  "feature_of k tok =
     (case k of
        Link \<Rightarrow> \<lparr>ftype = js ''app.bsky.richtext.facet#link'', fdid = None, furi = Some tok,
                 ftag = None\<rparr>
      | Mention \<Rightarrow> \<lparr>ftype = js ''app.bsky.richtext.facet#mention'', fdid = Some (tl tok),
                    furi = None, ftag = None\<rparr>
      | Hashtag \<Rightarrow> \<lparr>ftype = js ''app.bsky.richtext.facet#tag'', fdid = None, furi = None,
                    ftag = Some (tl tok)\<rparr>)"

text \<open>
  The text is rewritten span by span: \<open>out\<close> is the rewritten text up to position \<open>pos\<close>
  of the original. A facet starts at the UTF-8 byte length of the rewritten text before
  its token and ends at the byte length of the rewritten text up to the end of the
  token as it is shown; its feature carries the token as it was in the original.
\<close>

fun render :: "jsstring \<Rightarrow> nat \<Rightarrow> candidate list \<Rightarrow> jsstring \<Rightarrow> facet list \<Rightarrow> detected" where
  "render t pos [] out fcs = \<lparr>facets = fcs, text' = out @ drop pos t\<rparr>"
| "render t pos (c # cs) out fcs =
     (let head_text = out @ take (c_start c - pos) (drop pos t);
          tok = take (c_len c) (drop (c_start c) t);
          upto_text = head_text @ shown (c_kind c) tok
      in render t (c_start c + c_len c) cs upto_text
           (fcs @ [\<lparr>index = \<lparr>byteStart = byteLength head_text, byteEnd = byteLength upto_text\<rparr>,
                    features = [feature_of (c_kind c) tok]\<rparr>]))"

definition detectFacets :: "jsstring \<Rightarrow> detected" where
  "detectFacets t = render t 0 (claimed_spans t) [] []"

section \<open>Notions for the properties of the facet detector\<close>

text \<open>A span that lies in the text and is a match of the pattern of its kind.\<close>

definition valid_span :: "jsstring \<Rightarrow> candidate \<Rightarrow> bool" where
  "valid_span t c \<longleftrightarrow>
     0 < c_len c \<and> c_start c + c_len c \<le> length t \<and>
     (case c_kind c of
        Link \<Rightarrow> url_match (drop (c_start c) t) = Some (c_len c)
      | Mention \<Rightarrow> mention_match (drop (c_start c) t) = Some (c_len c)
      | Hashtag \<Rightarrow> hashtag_match (drop (c_start c) t) = Some (c_len c))"

text \<open>Byte ranges that are not empty, follow one another, and lie between two bounds.\<close>

fun ranges_ok :: "nat \<Rightarrow> nat \<Rightarrow> facet list \<Rightarrow> bool" where
  "ranges_ok lo hi [] = (lo \<le> hi)"
| "ranges_ok lo hi (f # fs) =
     (lo \<le> byteStart (index f) \<and> byteStart (index f) < byteEnd (index f) \<and>
      ranges_ok (byteEnd (index f)) hi fs)"

section \<open>Example texts\<close>

definition link_facet :: "nat \<Rightarrow> nat \<Rightarrow> jsstring \<Rightarrow> facet" where
  "link_facet s e u =
     \<lparr>index = \<lparr>byteStart = s, byteEnd = e\<rparr>,
      features = [\<lparr>ftype = js ''app.bsky.richtext.facet#link'', fdid = None, furi = Some u,
                   ftag = None\<rparr>]\<rparr>"

text \<open>A network that resolves the handles "alice" and "bob.example.com".\<close>

definition two_handles_network :: network where
  "two_handles_network tr req =
     (if req_query req = [(js ''handle'', js ''alice'')]
      then Inr (ok_response (example_session\<lparr>did := Some (js ''did:plc:alice123'')\<rparr>))
      else if req_query req = [(js ''handle'', js ''bob.example.com'')]
      then Inr (ok_response (example_session\<lparr>did := Some (js ''did:plc:bob456'')\<rparr>))
      else Inr not_found_response)"

definition hello_link :: jsstring where
  "hello_link = js ''Hello, world! https://example.com''"

definition hello_mentions :: jsstring where
  "hello_mentions = js ''Hello @alice and @bob.example.com!''"

text \<open>
  An accented letter (U+00E9), a space, an emoji (U+1F30D, two code units), a space and
  a URL: the URL starts at UTF-16 index 5, at code point 4 and at byte 8.
\<close>

definition accented_link :: jsstring where
  "accented_link = [0xE9, 0x20, 0xD83C, 0xDF0D, 0x20] @ js ''https://example.com''"


text \<open>A URL of 27 characters and a URL of 28 characters.\<close>

definition threshold_urls :: jsstring where
  "threshold_urls = js ''a https://example.com/1234567 b https://example.com/12345678 c''"

section \<open>Notions for the byte ranges\<close>

text \<open>A string that ends in a high surrogate, which a low surrogate after it would complete.\<close>

definition ends_high :: "jsstring \<Rightarrow> bool" where
  "ends_high s \<longleftrightarrow> s \<noteq> [] \<and> is_high_surrogate (last s)"

text \<open>
  The facet \<open>fc\<close> is the facet of the span \<open>c\<close> of the text \<open>t\<close>: the rewritten text
  \<open>txt\<close> is some \<open>head\<close>, the token as it is shown, and some \<open>rest\<close>; the facet starts at
  the byte length of \<open>head\<close> and ends at the byte length of \<open>head\<close> with the token; and no
  surrogate pair lies across the end of the token.
\<close>

definition sits_at :: "jsstring \<Rightarrow> jsstring \<Rightarrow> candidate \<Rightarrow> facet \<Rightarrow> bool" where
  "sits_at t txt c fc \<longleftrightarrow>
     features fc = [feature_of (c_kind c) (take (c_len c) (drop (c_start c) t))] \<and>
     (\<exists>head rest.
        txt = head @ shown (c_kind c) (take (c_len c) (drop (c_start c) t)) @ rest \<and>
        (\<not> ends_high (shown (c_kind c) (take (c_len c) (drop (c_start c) t))) \<or>
         \<not> starts_low rest) \<and>
        byteStart (index fc) = byteLength head \<and>
        byteEnd (index fc) =
          byteLength (head @ shown (c_kind c) (take (c_len c) (drop (c_start c) t))))"

text \<open>
  What the text shows for a feature: the URL as it is displayed, "@" and the handle, "#"
  and the tag.
\<close>

definition feature_text :: "feature \<Rightarrow> jsstring" where
  "feature_text f =
     (if ftype f = js ''app.bsky.richtext.facet#link''
      then (case furi f of Some u \<Rightarrow> truncateUrl u | None \<Rightarrow> [])
      else if ftype f = js ''app.bsky.richtext.facet#mention''
      then (case fdid f of Some h \<Rightarrow> of_char CHR ''@'' # h | None \<Rightarrow> [])
      else (case ftag f of Some g \<Rightarrow> of_char CHR ''#'' # g | None \<Rightarrow> []))"



section \<open>An example message with a long URL\<close>

definition long_url_message :: jsstring where
  "long_url_message = js ''see https://example.com/very/long/path/that''"

section \<open>Example options under the configured host\<close>

text \<open>
  Options whose identifier is a handle under the configured host, and the strategy that
  the constructor makes of them.
\<close>

definition social_options :: BlueskyOptions where
  "social_options =
     \<lparr>identifier = Some (js ''user.bsky.social''), password = Some (js ''password''),
      host = Some (js ''bsky.social'')\<rparr>"

definition social_strategy :: BlueskyStrategy where
  "social_strategy =
     \<lparr>MAX_MESSAGE_LENGTH = 300, strategy_id = js ''bluesky'', strategy_name = js ''Bluesky'',
      options = social_options\<rparr>"

section \<open>A URL with characters outside the Basic Multilingual Plane\<close>

text \<open>
  A URL that ends in four emoji (U+1F30D, two code units each): 28 UTF-16 code units,
  24 Unicode scalar values.
\<close>

definition emoji_url :: jsstring where
  "emoji_url = js ''https://example.com/'' @ utf16_encode [0x1F30D, 0x1F30D, 0x1F30D, 0x1F30D]"

section \<open>A link facet before two mentions\<close>

text \<open>
  A link facet before the two mentions of the example, and a runtime whose \<open>detectFacets\<close>
  finds the three.
\<close>

definition link_and_mentions :: "facet list" where
  "link_and_mentions =
     [\<lparr>index = \<lparr>byteStart = 0, byteEnd = 19\<rparr>,
       features = [\<lparr>ftype = js ''app.bsky.richtext.facet#link'', fdid = None,
                    furi = Some (js ''https://example.com''), ftag = None\<rparr>]\<rparr>,
      mention_facet 20 26 (js ''alice''), mention_facet 27 39 (js ''nonexistent'')]"

section \<open>Notions for the rewritten text\<close>



text \<open>
  Spans that are not empty and follow one another between the positions \<open>lo\<close> and \<open>hi\<close>.
\<close>

fun chain :: "nat \<Rightarrow> nat \<Rightarrow> candidate list \<Rightarrow> bool" where
  "chain lo hi [] = (lo \<le> hi)"
| "chain lo hi (c # cs) =
     (lo \<le> c_start c \<and> 0 < c_len c \<and> chain (c_start c + c_len c) hi cs)"



section \<open>The URL tokens of a message\<close>


section \<open>Example texts with a URL and a mention\<close>



section \<open>Properties of \<open>calculateMessageLength\<close>\<close>

lemma low_not_high: "is_low_surrogate x \<Longrightarrow> \<not> is_high_surrogate x"
  by (auto simp: is_low_surrogate_def is_high_surrogate_def word_le_nat_alt)

lemma length_codePoints_Cons:
  "length (codePoints (c # s)) =
     (if is_high_surrogate c \<and> starts_low s then length (codePoints s) else Suc (length (codePoints s)))"
  by (cases s rule: codePoints.cases) (auto simp: starts_low_def low_not_high)

lemma length_codePoints_append:
  "\<not> starts_low b \<Longrightarrow> length (codePoints (a @ b)) = length (codePoints a) + length (codePoints b)"
proof (induction a rule: codePoints.induct)
  case 1
  then show ?case by simp
next
  case (2 x)
  then show ?case by (simp add: length_codePoints_Cons)
next
  case (3 x y r)
  then show ?case by simp
qed

lemma ws_not_low: "is_ws u \<Longrightarrow> \<not> is_low_surrogate u"
  unfolding is_ws_def is_low_surrogate_def
  by (elim disjE conjE) (simp_all add: word_le_nat_alt)

lemma url_match_head: "url_match s = Some n \<Longrightarrow> \<exists>r. s = of_char CHR ''h'' # r"
  by (auto simp: url_match_def js_def prefix_def split: if_splits)

lemma drop_takeWhile_rest:
  "takeWhile P (drop k s) \<noteq> [] \<Longrightarrow>
     drop (k + length (takeWhile P (drop k s))) s = dropWhile P (drop k s)"
  by (metis add.commute drop_drop dropWhile_eq_drop)

lemma dropWhile_not_low: "\<not> starts_low (dropWhile (\<lambda>u. \<not> is_ws u) s)"
  by (induction s) (auto simp: starts_low_def ws_not_low)

lemma url_match_rest: "url_match s = Some n \<Longrightarrow> \<not> starts_low (drop n s)"
  by (auto simp: url_match_def drop_takeWhile_rest dropWhile_not_low split: if_splits)


lemma starts_low_Cons [simp]: "starts_low (c # s) = is_low_surrogate c"
  by (simp add: starts_low_def)

lemma starts_low_Nil [simp]: "\<not> starts_low []"
  by (simp add: starts_low_def)

lemma h_not_low: "\<not> is_low_surrogate 104"
  by (simp add: is_low_surrogate_def)

lemma x_not_surrogate:
  "\<not> is_low_surrogate 120" "\<not> is_high_surrogate 120"
  by (simp_all add: is_low_surrogate_def is_high_surrogate_def)

lemma tokens_start_low_add_plain [simp]: "tokens_start_low (add_plain c ts) = is_low_surrogate c"
  by (cases "(c, ts)" rule: add_plain.cases) simp_all

lemma url_tokens_start: "tokens_start_low (url_tokens s) = starts_low s"
proof (cases s)
  case Nil
  then show ?thesis by simp
next
  case (Cons c cs)
  show ?thesis
  proof (cases "url_match s")
    case None
    with Cons show ?thesis by simp
  next
    case (Some n)
    with url_match_head [OF Some] Cons show ?thesis by (auto simp: h_not_low)
  qed
qed

lemma length_codePoints_replicate_x:
  "length (codePoints (replicate n 120)) = n"
  by (induction n) (simp_all add: length_codePoints_Cons x_not_surrogate)

lemma placeholder_contribution:
  "length (codePoints (placeholder u)) = contribution (UrlTok u)"
  by (simp add: placeholder_def length_codePoints_replicate_x)

lemma placeholder_start:
  assumes "url_match s = Some n"
  shows "\<not> starts_low (placeholder (take n s) @ r)"
proof -
  from url_match_head [OF assms] obtain t where s: "s = of_char CHR ''h'' # t" by blast
  from url_match_pos [OF assms] obtain k where n: "n = Suc k" by (cases n) auto
  show ?thesis
    by (simp add: placeholder_def s n x_not_surrogate h_not_low numeral_eq_Suc)
qed

lemma replaceUrls_start: "starts_low (replaceUrls placeholder s) = starts_low s"
proof (cases s)
  case Nil
  then show ?thesis by simp
next
  case (Cons c cs)
  show ?thesis
  proof (cases "url_match s")
    case None
    with Cons show ?thesis by simp
  next
    case (Some n)
    from url_match_head [OF Some] have "\<not> starts_low s" by (auto simp: h_not_low)
    with placeholder_start [OF Some] Some Cons show ?thesis by simp
  qed
qed

lemma sum_contribution_add_plain:
  "sum_list (map contribution (add_plain c ts)) =
     sum_list (map contribution ts) + (if is_high_surrogate c \<and> tokens_start_low ts then 0 else 1)"
  by (cases "(c, ts)" rule: add_plain.cases) (simp_all add: length_codePoints_Cons)

lemma replaceUrls_count:
  "length (codePoints (replaceUrls placeholder m)) = sum_list (map contribution (url_tokens m))"
proof (induction m rule: url_tokens.induct)
  case 1
  then show ?case by simp
next
  case (2 c cs)
  show ?case
  proof (cases "url_match (c # cs)")
    case None
    with 2 show ?thesis
      by (simp add: length_codePoints_Cons sum_contribution_add_plain replaceUrls_start
            url_tokens_start)
  next
    case (Some n)
    have "\<not> starts_low (replaceUrls placeholder (drop n (c # cs)))"
      using url_match_rest [OF Some] by (simp add: replaceUrls_start)
    with 2 Some show ?thesis
      by (simp add: length_codePoints_append placeholder_contribution del: contribution.simps)
  qed
qed

lemma url_tokens_concat: "concat (map token_text (url_tokens m)) = m"
proof (induction m rule: url_tokens.induct)
  case 1
  then show ?case by simp
next
  case (2 c cs)
  have ap: "\<And>ts. concat (map token_text (add_plain c ts)) = c # concat (map token_text ts)"
    subgoal for ts by (cases "(c, ts)" rule: add_plain.cases) simp_all
    done
  from 2 show ?case
    by (cases "url_match (c # cs)") (simp_all add: ap del: append_take_drop_id, simp)
qed

lemma unat_unit: "k < 65536 \<Longrightarrow> unat (of_nat k :: code_unit) = k"
  by (simp add: unat_of_nat)

lemma codePoints_not_high:
  "\<not> is_high_surrogate x \<Longrightarrow> codePoints (x # s) = unat x # codePoints s"
  by (cases s) simp_all

lemma codePoints_utf16_units:
  assumes "is_scalar n"
  shows "codePoints (utf16_units n @ s) = n # codePoints s"
proof (cases "n < 0x10000")
  case True
  then have u: "unat (of_nat n :: code_unit) = n" by (simp add: unat_unit)
  from assms True have "\<not> is_high_surrogate (of_nat n)"
    by (auto simp: is_scalar_def is_high_surrogate_def word_le_nat_alt u)
  with True u show ?thesis
    by (simp add: utf16_units_def codePoints_not_high)
next
  case False
  define k where "k = n - 0x10000"
  from assms False have k: "k < 0x100000" and n: "n = 0x10000 + k"
    by (auto simp: is_scalar_def k_def)
  have d: "k div 0x400 < 0x400" and m: "k mod 0x400 < 0x400" using k by auto
  have uh: "unat (of_nat (0xD800 + k div 0x400) :: code_unit) = 0xD800 + k div 0x400"
    using d by (intro unat_unit) simp
  have ul: "unat (of_nat (0xDC00 + k mod 0x400) :: code_unit) = 0xDC00 + k mod 0x400"
    using m by (intro unat_unit) simp
  have h: "is_high_surrogate (of_nat (0xD800 + k div 0x400))"
    using d unfolding is_high_surrogate_def word_le_nat_alt uh by simp
  have l: "is_low_surrogate (of_nat (0xDC00 + k mod 0x400))"
    using m unfolding is_low_surrogate_def word_le_nat_alt ul by simp
  have u: "utf16_units n = [of_nat (0xD800 + k div 0x400), of_nat (0xDC00 + k mod 0x400)]"
    using False by (simp add: utf16_units_def k_def)
  show ?thesis
    unfolding u using h l uh ul by (simp add: n)
qed

lemma codePoints_utf16_encode:
  "list_all is_scalar cps \<Longrightarrow> codePoints (utf16_encode cps) = cps"
  by (induction cps) (simp_all add: utf16_encode_def codePoints_utf16_units)


section \<open>Properties of \<open>getUrlFromResponse\<close>\<close>

lemma split_not_Nil: "split c s \<noteq> []"
  by (induction s) (auto split: list.splits)

lemma split_no_separator: "c \<notin> set s \<Longrightarrow> split c s = [s]"
  by (induction s) auto

lemma split_separator_tl: "tl (split c (p @ c # r)) \<noteq> []"
  by (induction p) (auto simp: split_not_Nil split: list.splits)

lemma last_split_append: "last (split c (p @ c # r)) = last (split c r)"
proof (induction p)
  case Nil
  then show ?case by (simp add: split_not_Nil)
next
  case (Cons x p)
  show ?case
  proof (cases "x = c")
    case True
    with Cons show ?thesis by (simp add: split_not_Nil)
  next
    case False
    obtain q qs where s: "split c (p @ c # r) = q # qs"
      using split_not_Nil [of c "p @ c # r"] by (cases "split c (p @ c # r)") auto
    with split_separator_tl [of c p r] have "qs \<noteq> []" by simp
    with False s Cons show ?thesis by simp
  qed
qed

lemma last_split: "c \<notin> set r \<Longrightarrow> last (split c (p @ c # r)) = r"
  by (simp add: last_split_append split_no_separator)

section \<open>Properties of posting\<close>

lemma validateImages_bad:
  "\<exists>img \<in> set imgs. \<not> is_bytes (data img) \<Longrightarrow> \<exists>m. validateImages imgs = Inl (TypeError m)"
  by (induction imgs) (auto simp: is_bytes_def split: js_data.splits)

lemma snd_createSession:
  "snd (createSession net opts sig tr) = tr @ [session_request opts sig]"
  by (simp add: createSession_def fetch_def session_request_def split: sum.splits)

lemma snd_resolveHandle: "\<exists>r. snd (resolveHandle net opts h sig tr) = tr @ [r] \<and> req_signal r = sig"
  by (simp add: resolveHandle_def fetch_def split: sum.splits)

lemma snd_resolveFeatures:
  "\<exists>ext. snd (resolveFeatures net opts sig fs acc tr) = tr @ ext \<and> (\<forall>r \<in> set ext. req_signal r = sig)"
proof (induction fs arbitrary: acc tr)
  case Nil
  then show ?case by simp
next
  case (Cons f fs)
  show ?case
  proof (cases "mention_handle f")
    case None
    with Cons show ?thesis by simp
  next
    case (Some h)
    obtain res tr' where r: "resolveHandle net opts h sig tr = (res, tr')"
      by (cases "resolveHandle net opts h sig tr")
    with snd_resolveHandle [of net opts h sig tr] obtain q where q: "tr' = tr @ [q]" "req_signal q = sig"
      by auto
    obtain acc' where step: "resolveFeatures net opts sig (f # fs) acc tr = resolveFeatures net opts sig fs acc' tr'"
      using Some r by (cases res) auto
    from Cons [of acc' tr'] obtain ext where "snd (resolveFeatures net opts sig fs acc' tr') = tr' @ ext"
       "\<forall>r \<in> set ext. req_signal r = sig" by blast
    with q step show ?thesis by (intro exI [of _ "q # ext"]) simp
  qed
qed

lemma snd_resolveFacets:
  "\<exists>ext. snd (resolveFacets net opts sig fcs acc tr) = tr @ ext \<and> (\<forall>r \<in> set ext. req_signal r = sig)"
proof (induction fcs arbitrary: acc tr)
  case Nil
  then show ?case by simp
next
  case (Cons fc fcs)
  obtain pf tr' where r: "resolveFeatures net opts sig (features fc) [] tr = (pf, tr')"
    by (cases "resolveFeatures net opts sig (features fc) [] tr")
  with snd_resolveFeatures [of net opts sig "features fc" "[]" tr]
  obtain e1 where e1: "tr' = tr @ e1" "\<forall>r \<in> set e1. req_signal r = sig" by auto
  obtain acc' where step:
    "resolveFacets net opts sig (fc # fcs) acc tr = resolveFacets net opts sig fcs acc' tr'"
    using r by (cases "0 < length pf") auto
  from Cons [of acc' tr'] obtain e2 where
    "snd (resolveFacets net opts sig fcs acc' tr') = tr' @ e2" "\<forall>r \<in> set e2. req_signal r = sig"
    by blast
  with e1 step show ?case by (intro exI [of _ "e1 @ e2"]) auto
qed

lemma snd_uploadImage:
  "\<exists>r. snd (uploadImage net opts session d sig tr) = tr @ [r] \<and> req_signal r = sig"
  by (simp add: uploadImage_def fetch_def split: sum.splits)

lemma uploadImage_aborted:
  "aborted_from net s k \<Longrightarrow> k \<le> length tr \<Longrightarrow>
     fst (uploadImage net opts session d (Some s) tr) = Inl AbortError"
  by (simp add: uploadImage_def fetch_def aborted_from_def)

lemma createSession_aborted:
  "aborted_from net s k \<Longrightarrow> k \<le> length tr \<Longrightarrow>
     fst (createSession net opts (Some s) tr) = Inl AbortError"
  by (simp add: createSession_def fetch_def aborted_from_def)

lemma snd_uploadImages:
  "\<exists>ext. snd (uploadImages rt opts session sig imgs acc tr) = tr @ ext \<and>
         (imgs \<noteq> [] \<longrightarrow> ext \<noteq> []) \<and> (\<forall>r \<in> set ext. req_signal r = sig)"
proof (induction imgs arbitrary: acc tr)
  case Nil
  then show ?case by simp
next
  case (Cons img imgs)
  obtain res tr1 where u: "uploadImage (network_impl rt) opts session (data img) sig tr = (res, tr1)"
    by (cases "uploadImage (network_impl rt) opts session (data img) sig tr")
  with snd_uploadImage [of "network_impl rt" opts session "data img" sig tr]
  obtain q where q: "tr1 = tr @ [q]" "req_signal q = sig" by auto
  show ?case
  proof (cases "\<exists>acc'. uploadImages rt opts session sig (img # imgs) acc tr =
                        uploadImages rt opts session sig imgs acc' tr1")
    case True
    then obtain acc' where step: "uploadImages rt opts session sig (img # imgs) acc tr =
                        uploadImages rt opts session sig imgs acc' tr1" by blast
    from Cons [of acc' tr1] obtain e2 where
      "snd (uploadImages rt opts session sig imgs acc' tr1) = tr1 @ e2"
      "\<forall>r \<in> set e2. req_signal r = sig" by blast
    with q step show ?thesis by (intro exI [of _ "q # e2"]) auto
  next
    case False
    with u have "snd (uploadImages rt opts session sig (img # imgs) acc tr) = tr1"
      by (auto split: sum.splits)
    with q show ?thesis by (intro exI [of _ "[q]"]) auto
  qed
qed

lemma uploadImages_aborted:
  assumes "aborted_from (network_impl rt) s k"
  shows "imgs \<noteq> [] \<Longrightarrow> k < length (snd (uploadImages rt opts session (Some s) imgs acc tr)) \<Longrightarrow>
         fst (uploadImages rt opts session (Some s) imgs acc tr) = Inl AbortError"
proof (induction imgs arbitrary: acc tr)
  case Nil
  then show ?case by simp
next
  case (Cons img imgs)
  obtain res tr1 where u:
    "uploadImage (network_impl rt) opts session (data img) (Some s) tr = (res, tr1)"
    by (cases "uploadImage (network_impl rt) opts session (data img) (Some s) tr")
  with snd_uploadImage [of "network_impl rt" opts session "data img" "Some s" tr]
  have l: "length tr1 = Suc (length tr)" by auto
  show ?case
  proof (cases "k \<le> length tr")
    case True
    with uploadImage_aborted [OF assms, of tr opts session "data img"] u
    show ?thesis by simp
  next
    case False
    show ?thesis
    proof (cases res)
      case (Inl e)
      with u Cons.prems l False show ?thesis by simp
    next
      case (Inr result)
      show ?thesis
      proof (cases "imageSize rt (data img)")
        case (Inl e)
        with u Inr Cons.prems l False show ?thesis by simp
      next
        case wh: (Inr wh)
        show ?thesis
        proof (cases "imgs = []")
          case True
          with u Inr wh Cons.prems l False show ?thesis by simp
        next
          case ne: False
          from u Inr wh Cons.prems(2) Cons.IH [OF ne] show ?thesis by simp
        qed
      qed
    qed
  qed
qed

lemma postMessage_no_images:
  assumes "resolveMentionFacets (network_impl rt) opts (facets (detectFacets_impl rt msg))
             (signal_of po) tr = (fcs, tr1)"
      and "images_of po = []"
  shows "postMessage rt opts session msg po tr =
           (outcome_of (js ''Failed to post message'')
              (network_impl rt tr1 (record_request opts session (signal_of po)
                 (post_body rt session msg fcs []))),
            tr1 @ [record_request opts session (signal_of po) (post_body rt session msg fcs [])])"
  using assms
  by (simp add: postMessage_def Let_def fetch_def outcome_of_def record_request_def post_body_def
        split: sum.splits)

lemma postMessage_upload_failed:
  assumes "resolveMentionFacets (network_impl rt) opts (facets (detectFacets_impl rt msg))
             (signal_of po) tr = (fcs, tr1)"
      and "images_of po \<noteq> []"
      and "uploadImages rt opts session (signal_of po) (images_of po) [] tr1 = (Inl e, tr2)"
  shows "postMessage rt opts session msg po tr = (Inl e, tr2)"
  using assms by (simp add: postMessage_def Let_def)

lemma postMessage_uploaded:
  assumes "resolveMentionFacets (network_impl rt) opts (facets (detectFacets_impl rt msg))
             (signal_of po) tr = (fcs, tr1)"
      and "images_of po \<noteq> []"
      and "uploadImages rt opts session (signal_of po) (images_of po) [] tr1 = (Inr imgs, tr2)"
  shows "postMessage rt opts session msg po tr =
           (outcome_of (js ''Failed to post message'')
              (network_impl rt tr2 (record_request opts session (signal_of po)
                 (post_body rt session msg fcs imgs))),
            tr2 @ [record_request opts session (signal_of po) (post_body rt session msg fcs imgs)])"
  using assms
  by (simp add: postMessage_def Let_def fetch_def outcome_of_def record_request_def post_body_def
        split: sum.splits)

lemma req_signal_record_request [simp]:
  "req_signal (record_request opts session sig body) = sig"
  by (simp add: record_request_def)

lemma snd_postMessage:
  "\<exists>ext. snd (postMessage rt opts session msg po tr) = tr @ ext \<and> ext \<noteq> [] \<and>
         (\<forall>r \<in> set ext. req_signal r = signal_of po)"
proof -
  obtain fcs tr1 where r: "resolveMentionFacets (network_impl rt) opts
      (facets (detectFacets_impl rt msg)) (signal_of po) tr = (fcs, tr1)"
    by (cases "resolveMentionFacets (network_impl rt) opts
      (facets (detectFacets_impl rt msg)) (signal_of po) tr")
  with snd_resolveFacets [of "network_impl rt" opts "signal_of po"
      "facets (detectFacets_impl rt msg)" "[]" tr]
  obtain e1 where e1: "tr1 = tr @ e1" "\<forall>r \<in> set e1. req_signal r = signal_of po"
    by (auto simp: resolveMentionFacets_def)
  show ?thesis
  proof (cases "images_of po = []")
    case True
    from postMessage_no_images [OF r True, of session] e1 show ?thesis
      by (intro exI [of _ "e1 @ [record_request opts session (signal_of po)
                 (post_body rt session msg fcs [])]"]) auto
  next
    case False
    obtain res tr2 where u:
      "uploadImages rt opts session (signal_of po) (images_of po) [] tr1 = (res, tr2)"
      by (cases "uploadImages rt opts session (signal_of po) (images_of po) [] tr1")
    with snd_uploadImages [of rt opts session "signal_of po" "images_of po" "[]" tr1]
    obtain e2 where e2: "tr2 = tr1 @ e2" "\<forall>r \<in> set e2. req_signal r = signal_of po"
      and ne: "e2 \<noteq> []" using False by auto
    show ?thesis
    proof (cases res)
      case (Inl e)
      from postMessage_upload_failed [OF r False u [unfolded Inl]] e1 e2 ne show ?thesis
        by (intro exI [of _ "e1 @ e2"]) auto
    next
      case (Inr imgs)
      from postMessage_uploaded [OF r False u [unfolded Inr]] e1 e2 show ?thesis
        by (intro exI [of _ "e1 @ e2 @ [record_request opts session (signal_of po)
                 (post_body rt session msg fcs imgs)]"]) auto
    qed
  qed
qed

lemma outcome_of_aborted [simp]: "outcome_of what (Inl e) = Inl e"
  by (simp add: outcome_of_def)

lemma postMessage_aborted:
  assumes a: "aborted_from (network_impl rt) s k"
      and sg: "signal_of po = Some s"
      and k: "k < length (snd (postMessage rt opts session msg po tr))"
  shows "fst (postMessage rt opts session msg po tr) = Inl AbortError"
proof -
  obtain fcs tr1 where r: "resolveMentionFacets (network_impl rt) opts
      (facets (detectFacets_impl rt msg)) (signal_of po) tr = (fcs, tr1)"
    by (cases "resolveMentionFacets (network_impl rt) opts
      (facets (detectFacets_impl rt msg)) (signal_of po) tr")
  have ab: "\<And>h body. k \<le> length h \<Longrightarrow>
      network_impl rt h (record_request opts session (signal_of po) body) = Inl AbortError"
    using a sg by (simp add: aborted_from_def)
  show ?thesis
  proof (cases "images_of po = []")
    case True
    from postMessage_no_images [OF r True, of session] k ab [of tr1] show ?thesis
      by simp
  next
    case False
    obtain res tr2 where u:
      "uploadImages rt opts session (signal_of po) (images_of po) [] tr1 = (res, tr2)"
      by (cases "uploadImages rt opts session (signal_of po) (images_of po) [] tr1")
    show ?thesis
    proof (cases res)
      case (Inl e)
      from postMessage_upload_failed [OF r False u [unfolded Inl]] k
        uploadImages_aborted [OF a False, of opts session "[]" tr1] u Inl sg
      show ?thesis by simp
    next
      case (Inr imgs)
      from postMessage_uploaded [OF r False u [unfolded Inr]] k ab [of tr2] show ?thesis
        by simp
    qed
  qed
qed

lemma post_rejected_message:
  "\<not> truthy msg \<Longrightarrow> post rt this msg po tr = (Inl (TypeError (js ''Missing message to post.'')), tr)"
  by (simp add: post_def)

lemma post_rejected_options:
  "truthy msg \<Longrightarrow> validatePostOptions_impl rt po = Inl e \<Longrightarrow> post rt this msg po tr = (Inl e, tr)"
  by (auto simp: post_def truthy_def split: option.splits)

lemma post_accepted:
  assumes "truthy msg" "validatePostOptions_impl rt po = Inr u"
  obtains m where "msg = Some m"
    "post rt this msg po tr =
       (case createSession (network_impl rt) (options this) (signal_of po) tr of
          (Inl e, tr') \<Rightarrow> (Inl e, tr')
        | (Inr session, tr') \<Rightarrow> postMessage rt (options this) session m po tr')"
  using assms by (cases msg) (auto simp: post_def truthy_def)

lemma snd_post_accepted:
  assumes "truthy msg" "validatePostOptions_impl rt po = Inr u"
  shows "\<exists>ext. snd (post rt this msg po tr) = tr @ session_request (options this) (signal_of po) # ext \<and>
           (\<forall>r \<in> set ext. req_signal r = signal_of po)"
proof -
  from assms obtain m where p: "post rt this msg po tr =
       (case createSession (network_impl rt) (options this) (signal_of po) tr of
          (Inl e, tr') \<Rightarrow> (Inl e, tr')
        | (Inr session, tr') \<Rightarrow> postMessage rt (options this) session m po tr')"
    by (rule post_accepted)
  obtain res tr1 where c: "createSession (network_impl rt) (options this) (signal_of po) tr = (res, tr1)"
    by (cases "createSession (network_impl rt) (options this) (signal_of po) tr")
  with snd_createSession [of "network_impl rt" "options this" "signal_of po" tr]
  have t1: "tr1 = tr @ [session_request (options this) (signal_of po)]" by simp
  show ?thesis
  proof (cases res)
    case (Inl e)
    with p c t1 show ?thesis by simp
  next
    case (Inr session)
    from snd_postMessage [of rt "options this" session m po tr1] obtain ext where
      "snd (postMessage rt (options this) session m po tr1) = tr1 @ ext"
      "\<forall>r \<in> set ext. req_signal r = signal_of po" by blast
    with p c t1 Inr show ?thesis by simp
  qed
qed

lemma snd_post_rejected:
  assumes "\<not> (truthy msg \<and> (\<exists>u. validatePostOptions_impl rt po = Inr u))"
  shows "snd (post rt this msg po tr) = tr"
proof (cases "truthy msg")
  case False
  then show ?thesis by (simp add: post_rejected_message)
next
  case True
  with assms obtain e where "validatePostOptions_impl rt po = Inl e"
    by (cases "validatePostOptions_impl rt po") auto
  with True show ?thesis by (simp add: post_rejected_options)
qed

text \<open>
  Claim C6. Every network call that \<open>post\<close> makes (session creation, each handle
  lookup, each blob upload, record creation) carries the caller's signal; and when the
  signal fires while one of these calls is in flight, \<open>post\<close> rejects with the
  \<open>AbortError\<close>, also when the call in flight was a handle lookup, whose own rejection
  \<open>resolveMentionFacets\<close> swallows. \<open>post\<close> is a total function: it returns in every
  case, with a result or with an error.
\<close>

theorem post_cancellation:
  assumes "post rt this msg po tr = (res, tr')"
  shows "(\<exists>ext. tr' = tr @ ext \<and> (\<forall>r \<in> set ext. req_signal r = signal_of po)) \<and>
         (signal_of po = Some s \<and> aborted_from (network_impl rt) s k \<and> length tr \<le> k \<and>
          k < length tr' \<longrightarrow> res = Inl AbortError)"
proof (cases "truthy msg \<and> (\<exists>u. validatePostOptions_impl rt po = Inr u)")
  case False
  then have "snd (post rt this msg po tr) = tr"
    by (rule snd_post_rejected)
  with assms show ?thesis by auto
next
  case True
  then obtain u where t: "truthy msg" and v: "validatePostOptions_impl rt po = Inr u" by blast
  from snd_post_accepted [OF t v, of this tr] assms
  have first: "\<exists>ext. tr' = tr @ ext \<and> (\<forall>r \<in> set ext. req_signal r = signal_of po)"
    by (auto simp: session_request_def)
  have second: "res = Inl AbortError"
    if sg: "signal_of po = Some s" and a: "aborted_from (network_impl rt) s k"
      and lo: "length tr \<le> k" and hi: "k < length tr'"
  proof -
    from t v obtain m where p: "post rt this msg po tr =
       (case createSession (network_impl rt) (options this) (signal_of po) tr of
          (Inl e, tr') \<Rightarrow> (Inl e, tr')
        | (Inr session, tr') \<Rightarrow> postMessage rt (options this) session m po tr')"
      by (rule post_accepted)
    obtain r1 tr1 where c:
      "createSession (network_impl rt) (options this) (signal_of po) tr = (r1, tr1)"
      by (cases "createSession (network_impl rt) (options this) (signal_of po) tr")
    with snd_createSession [of "network_impl rt" "options this" "signal_of po" tr]
    have t1: "length tr1 = Suc (length tr)" by simp
    show ?thesis
    proof (cases r1)
      case (Inl e)
      with p c assms have e: "res = Inl e" and "tr' = tr1" by simp_all
      with t1 lo hi have "k \<le> length tr" by simp
      from createSession_aborted [OF a this, of "options this"] sg c Inl e
      show ?thesis by simp
    next
      case (Inr session)
      with p c assms have pm: "postMessage rt (options this) session m po tr1 = (res, tr')"
        by simp
      with postMessage_aborted [OF a sg, of "options this" session m tr1] hi
      show ?thesis by simp
    qed
  qed
  from first second show ?thesis by blast
qed

theorem post_cancellation_witness:
  "post (example_runtime aborting_network) example_strategy (Some (js ''Hello, world!''))
     (Object \<lparr>images = ImagesMissing, signal = Some 7\<rparr>) [] =
     (Inl AbortError,
      [session_request example_options (Some 7),
       record_request example_options example_session (Some 7)
         (post_body (example_runtime aborting_network) example_session (js ''Hello, world!'') [] [])]) \<and>
   aborted_from aborting_network 7 1"
proof -
  have a: "aborted_from aborting_network 7 1"
    by (simp add: aborted_from_def aborting_network_def)
  have p: "post (example_runtime aborting_network) example_strategy (Some (js ''Hello, world!''))
     (Object \<lparr>images = ImagesMissing, signal = Some 7\<rparr>) [] =
     (Inl AbortError,
      [session_request example_options (Some 7),
       record_request example_options example_session (Some 7)
         (post_body (example_runtime aborting_network) example_session (js ''Hello, world!'') [] [])])"
    using post_cancellation [of "example_runtime aborting_network" example_strategy
        "Some (js ''Hello, world!'')" "Object \<lparr>images = ImagesMissing, signal = Some 7\<rparr>" "[]"
        "fst (post (example_runtime aborting_network) example_strategy (Some (js ''Hello, world!''))
          (Object \<lparr>images = ImagesMissing, signal = Some 7\<rparr>) [])"
        "snd (post (example_runtime aborting_network) example_strategy (Some (js ''Hello, world!''))
          (Object \<lparr>images = ImagesMissing, signal = Some 7\<rparr>) [])" 7 1]
    by (simp add: post_def truthy_def js_def example_runtime_def validatePostOptions_def
          createSession_def fetch_def aborting_network_def ok_response_def example_strategy_def
          signal_of_def postMessage_def resolveMentionFacets_def images_of_def
          session_request_def record_request_def post_body_def)
  from p a show ?thesis by blast
qed

lemma validateImages_rejects:
  "\<exists>img \<in> set imgs. \<not> is_bytes (data img) \<Longrightarrow>
     validateImages imgs = Inl (TypeError (js ''Image must have data.'')) \<or>
     validateImages imgs = Inl (TypeError (js ''Image data must be a Uint8Array.''))"
  by (induction imgs) (auto simp: is_bytes_def split: js_data.splits)

text \<open>
  Claim C8. The constructor throws a \<open>TypeError\<close> that names the first of identifier,
  password and host that is missing (it is a pure function: nothing in it can reach the
  network); \<open>post\<close> with a missing or empty message, or with options that
  \<open>validatePostOptions\<close> rejects, rejects with that error and leaves the list of network
  calls as it was; and with the \<open>validatePostOptions\<close> above, an image whose \<open>data\<close> is
  not a \<open>Uint8Array\<close> is such a rejection.
\<close>

theorem validation_before_network:
  "(\<not> truthy (identifier opts) \<longrightarrow>
      new_BlueskyStrategy opts = Inl (TypeError (js ''Missing identifier.''))) \<and>
   (truthy (identifier opts) \<and> \<not> truthy (password opts) \<longrightarrow>
      new_BlueskyStrategy opts = Inl (TypeError (js ''Missing password.''))) \<and>
   (truthy (identifier opts) \<and> truthy (password opts) \<and> \<not> truthy (host opts) \<longrightarrow>
      new_BlueskyStrategy opts = Inl (TypeError (js ''Missing host.''))) \<and>
   (\<not> truthy msg \<longrightarrow>
      post rt this msg po tr = (Inl (TypeError (js ''Missing message to post.'')), tr)) \<and>
   (truthy msg \<and> validatePostOptions_impl rt po = Inl e \<longrightarrow>
      post rt this msg po tr = (Inl e, tr)) \<and>
   (truthy msg \<and> validatePostOptions_impl rt = validatePostOptions \<and>
    po = Object p \<and> images p = ImagesArray imgs \<and> (\<exists>img \<in> set imgs. \<not> is_bytes (data img)) \<longrightarrow>
      post rt this msg po tr = (Inl (TypeError (js ''Image must have data.'')), tr) \<or>
      post rt this msg po tr = (Inl (TypeError (js ''Image data must be a Uint8Array.'')), tr))"
proof -
  have c: "(\<not> truthy (identifier opts) \<longrightarrow>
      new_BlueskyStrategy opts = Inl (TypeError (js ''Missing identifier.''))) \<and>
   (truthy (identifier opts) \<and> \<not> truthy (password opts) \<longrightarrow>
      new_BlueskyStrategy opts = Inl (TypeError (js ''Missing password.''))) \<and>
   (truthy (identifier opts) \<and> truthy (password opts) \<and> \<not> truthy (host opts) \<longrightarrow>
      new_BlueskyStrategy opts = Inl (TypeError (js ''Missing host.'')))"
    by (simp add: new_BlueskyStrategy_def)
  have i: "post rt this msg po tr = (Inl (TypeError (js ''Image must have data.'')), tr) \<or>
      post rt this msg po tr = (Inl (TypeError (js ''Image data must be a Uint8Array.'')), tr)"
    if "truthy msg" "validatePostOptions_impl rt = validatePostOptions"
       "po = Object p" "images p = ImagesArray imgs" "\<exists>img \<in> set imgs. \<not> is_bytes (data img)"
  proof -
    from that have "validatePostOptions_impl rt po = validateImages imgs"
      by (simp add: validatePostOptions_def)
    with validateImages_rejects [OF that(5)] that(1) show ?thesis
      by (auto simp: post_rejected_options)
  qed
  from c i show ?thesis
    by (simp add: post_rejected_message post_rejected_options)
qed

theorem validation_before_network_witness:
  "new_BlueskyStrategy (example_options\<lparr>identifier := None\<rparr>) =
     Inl (TypeError (js ''Missing identifier.'')) \<and>
   new_BlueskyStrategy (example_options\<lparr>password := None\<rparr>) =
     Inl (TypeError (js ''Missing password.'')) \<and>
   new_BlueskyStrategy (example_options\<lparr>host := None\<rparr>) =
     Inl (TypeError (js ''Missing host.'')) \<and>
   post (example_runtime (only_ok_network example_session)) example_strategy None Undefined [] =
     (Inl (TypeError (js ''Missing message to post.'')), []) \<and>
   post (example_runtime (only_ok_network example_session)) example_strategy
     (Some (js ''Hello world'')) (Object \<lparr>images = ImagesOther, signal = None\<rparr>) [] =
     (Inl (TypeError (js ''images must be an array.'')), []) \<and>
   post (example_runtime (only_ok_network example_session)) example_strategy
     (Some (js ''Hello world''))
     (Object \<lparr>images = ImagesArray [\<lparr>alt = Some (js ''test''), data = DataMissing\<rparr>],
              signal = None\<rparr>) [] =
     (Inl (TypeError (js ''Image must have data.'')), []) \<and>
   post (example_runtime (only_ok_network example_session)) example_strategy
     (Some (js ''Hello world''))
     (Object \<lparr>images = ImagesArray [\<lparr>alt = Some (js ''test''), data = DataOther\<rparr>],
              signal = None\<rparr>) [] =
     (Inl (TypeError (js ''Image data must be a Uint8Array.'')), [])"
proof -
  let ?rt = "example_runtime (only_ok_network example_session)"
  let ?m = "Some (js ''Hello world'')"
  have t: "truthy ?m" by (simp add: truthy_def js_def)
  have v: "validatePostOptions_impl ?rt = validatePostOptions" by (simp add: example_runtime_def)
  from validation_before_network [of "example_options\<lparr>identifier := None\<rparr>"]
  have a: "new_BlueskyStrategy (example_options\<lparr>identifier := None\<rparr>) =
     Inl (TypeError (js ''Missing identifier.''))"
    by (simp add: truthy_def)
  from validation_before_network [of "example_options\<lparr>password := None\<rparr>"]
  have b: "new_BlueskyStrategy (example_options\<lparr>password := None\<rparr>) =
     Inl (TypeError (js ''Missing password.''))"
    by (simp add: truthy_def example_options_def js_def)
  from validation_before_network [of "example_options\<lparr>host := None\<rparr>"]
  have c: "new_BlueskyStrategy (example_options\<lparr>host := None\<rparr>) =
     Inl (TypeError (js ''Missing host.''))"
    by (simp add: truthy_def example_options_def js_def)
  from validation_before_network [where msg = None and rt = ?rt and this = example_strategy
      and po = Undefined and tr = "[]"]
  have d: "post ?rt example_strategy None Undefined [] =
     (Inl (TypeError (js ''Missing message to post.'')), [])"
    by (simp add: truthy_def)
  from validation_before_network [where msg = ?m and rt = ?rt and this = example_strategy
      and po = "Object \<lparr>images = ImagesOther, signal = None\<rparr>" and tr = "[]"
      and e = "TypeError (js ''images must be an array.'')"] t v
  have e: "post ?rt example_strategy ?m (Object \<lparr>images = ImagesOther, signal = None\<rparr>) [] =
     (Inl (TypeError (js ''images must be an array.'')), [])"
    by (simp add: validatePostOptions_def)
  from validation_before_network [where msg = ?m and rt = ?rt and this = example_strategy
      and po = "Object \<lparr>images = ImagesArray [\<lparr>alt = Some (js ''test''), data = DataMissing\<rparr>],
              signal = None\<rparr>" and tr = "[]"
      and p = "\<lparr>images = ImagesArray [\<lparr>alt = Some (js ''test''), data = DataMissing\<rparr>],
              signal = None\<rparr>"
      and imgs = "[\<lparr>alt = Some (js ''test''), data = DataMissing\<rparr>]"] t v
  have f: "post ?rt example_strategy ?m
     (Object \<lparr>images = ImagesArray [\<lparr>alt = Some (js ''test''), data = DataMissing\<rparr>],
              signal = None\<rparr>) [] =
     (Inl (TypeError (js ''Image must have data.'')), [])"
    by (simp add: validatePostOptions_def is_bytes_def post_rejected_options)
  from validation_before_network [where msg = ?m and rt = ?rt and this = example_strategy
      and po = "Object \<lparr>images = ImagesArray [\<lparr>alt = Some (js ''test''), data = DataOther\<rparr>],
              signal = None\<rparr>" and tr = "[]"
      and p = "\<lparr>images = ImagesArray [\<lparr>alt = Some (js ''test''), data = DataOther\<rparr>],
              signal = None\<rparr>"
      and imgs = "[\<lparr>alt = Some (js ''test''), data = DataOther\<rparr>]"] t v
  have g: "post ?rt example_strategy ?m
     (Object \<lparr>images = ImagesArray [\<lparr>alt = Some (js ''test''), data = DataOther\<rparr>],
              signal = None\<rparr>) [] =
     (Inl (TypeError (js ''Image data must be a Uint8Array.'')), [])"
    by (simp add: validatePostOptions_def is_bytes_def post_rejected_options)
  from a b c d e f g show ?thesis by blast
qed

lemma post_all_ok:
  assumes t: "truthy (Some m)" and v: "validatePostOptions_impl rt po = Inr u"
      and n: "network_impl rt = only_ok_network b" and i: "images_of po = []"
  shows "\<exists>fcs h. post rt this (Some m) po tr =
           (Inr b, h @ [record_request (options this) b (signal_of po) (post_body rt b m fcs [])])"
proof -
  from t v obtain m' where m': "Some m = Some m'" and p: "post rt this (Some m) po tr =
       (case createSession (network_impl rt) (options this) (signal_of po) tr of
          (Inl e, tr') \<Rightarrow> (Inl e, tr')
        | (Inr session, tr') \<Rightarrow> postMessage rt (options this) session m' po tr')"
    by (rule post_accepted)
  have c: "createSession (network_impl rt) (options this) (signal_of po) tr =
             (Inr b, tr @ [session_request (options this) (signal_of po)])"
    by (simp add: createSession_def fetch_def n only_ok_network_def ok_response_def
          session_request_def)
  obtain fcs tr1 where r: "resolveMentionFacets (network_impl rt) (options this)
      (facets (detectFacets_impl rt m)) (signal_of po)
      (tr @ [session_request (options this) (signal_of po)]) = (fcs, tr1)"
    by (cases "resolveMentionFacets (network_impl rt) (options this)
      (facets (detectFacets_impl rt m)) (signal_of po)
      (tr @ [session_request (options this) (signal_of po)])")
  from postMessage_no_images [OF r i, of b] p c m'
  have "post rt this (Some m) po tr =
          (Inr b, tr1 @ [record_request (options this) b (signal_of po) (post_body rt b m fcs [])])"
    by (simp add: n only_ok_network_def outcome_of_def ok_response_def)
  then show ?thesis by blast
qed

text \<open>
  Claim C10. \<open>post\<close> never looks at the length of the message. With a non-empty message
  and options that pass validation its first act is the session request; it returns
  without a network call exactly when the message is missing or the options are
  rejected; and when every request is answered with 200 (and there are no images), it
  submits the record and resolves with the response, whatever the length of the message.
\<close>

theorem post_ignores_message_length:
  "(truthy msg \<and> validatePostOptions_impl rt po = Inr () \<longrightarrow>
      (\<exists>ext. snd (post rt this msg po tr) =
         tr @ session_request (options this) (signal_of po) # ext)) \<and>
   (snd (post rt this msg po tr) = tr \<longleftrightarrow>
      \<not> truthy msg \<or> (\<exists>e. validatePostOptions_impl rt po = Inl e)) \<and>
   (truthy (Some m) \<and> validatePostOptions_impl rt po = Inr () \<and>
    network_impl rt = only_ok_network b \<and> images_of po = [] \<longrightarrow>
      (\<exists>fcs h. post rt this (Some m) po tr =
         (Inr b, h @ [record_request (options this) b (signal_of po) (post_body rt b m fcs [])])))"
proof -
  have a: "\<exists>ext. snd (post rt this msg po tr) =
         tr @ session_request (options this) (signal_of po) # ext"
    if "truthy msg" "validatePostOptions_impl rt po = Inr ()"
    using snd_post_accepted [OF that, of this tr] by blast
  have b: "snd (post rt this msg po tr) = tr \<longleftrightarrow>
      \<not> truthy msg \<or> (\<exists>e. validatePostOptions_impl rt po = Inl e)"
  proof (cases "truthy msg \<and> (\<exists>u. validatePostOptions_impl rt po = Inr u)")
    case True
    then obtain u where "truthy msg" "validatePostOptions_impl rt po = Inr u" by blast
    from snd_post_accepted [OF this, of this tr] True show ?thesis by auto
  next
    case False
    from snd_post_rejected [OF this] False show ?thesis
      by (cases "validatePostOptions_impl rt po") auto
  qed
  from a b post_all_ok [of m rt po "()" b this tr] show ?thesis by blast
qed

lemma replaceUrls_replicate_a: "replaceUrls f (replicate n 97) = replicate n 97"
  by (induction n) (simp_all add: url_match_def js_def)

lemma length_codePoints_replicate_a: "length (codePoints (replicate n 97)) = n"
  by (induction n) (simp_all add: length_codePoints_Cons is_high_surrogate_def)

lemma long_message_length: "calculateMessageLength long_message = 301"
  by (simp add: calculateMessageLength_def long_message_def replaceUrls_replicate_a
        length_codePoints_replicate_a)

theorem post_ignores_message_length_witness:
  "MAX_MESSAGE_LENGTH example_strategy < calculateMessageLength long_message \<and>
   truthy (Some long_message) \<and>
   validatePostOptions_impl (example_runtime (only_ok_network example_session)) Undefined = Inr () \<and>
   post (example_runtime (only_ok_network example_session)) example_strategy (Some long_message)
     Undefined [] =
     (Inr example_session,
      [session_request example_options None,
       record_request example_options example_session None
         (post_body (example_runtime (only_ok_network example_session)) example_session
            long_message [] [])])"
proof -
  let ?rt = "example_runtime (only_ok_network example_session)"
  have l: "MAX_MESSAGE_LENGTH example_strategy < calculateMessageLength long_message"
    by (simp add: long_message_length example_strategy_def)
  have t: "truthy (Some long_message)" by (simp add: truthy_def long_message_def)
  have v: "validatePostOptions_impl ?rt Undefined = Inr ()"
    by (simp add: example_runtime_def validatePostOptions_def)
  have n: "network_impl ?rt = only_ok_network example_session" by (simp add: example_runtime_def)
  have i: "images_of Undefined = []" by (simp add: images_of_def)
  have o: "options example_strategy = example_options" by (simp add: example_strategy_def)
  from post_ignores_message_length [where msg = "Some long_message" and m = long_message
      and rt = ?rt and po = Undefined and this = example_strategy and tr = "[]"
      and b = example_session] t v n i
  obtain fcs h ext where
    p: "post ?rt example_strategy (Some long_message) Undefined [] =
         (Inr example_session, h @ [record_request (options example_strategy) example_session
            (signal_of Undefined) (post_body ?rt example_session long_message fcs [])])"
    and s: "snd (post ?rt example_strategy (Some long_message) Undefined []) =
         [] @ session_request (options example_strategy) (signal_of Undefined) # ext"
    by blast
  have "post ?rt example_strategy (Some long_message) Undefined [] =
     (Inr example_session,
      [session_request example_options None,
       record_request example_options example_session None
         (post_body ?rt example_session long_message [] [])])"
    using t
    by (simp add: post_def example_runtime_def validatePostOptions_def
          createSession_def fetch_def only_ok_network_def ok_response_def example_strategy_def
          signal_of_def postMessage_def resolveMentionFacets_def images_of_def
          session_request_def record_request_def post_body_def)
  with l t v show ?thesis by blast
qed

section \<open>Properties of the mention resolver\<close>

lemma resolveFeatures_acc:
  "resolveFeatures net opts sig fs acc tr =
     (acc @ fst (resolveFeatures net opts sig fs [] tr), snd (resolveFeatures net opts sig fs [] tr))"
proof (induction fs arbitrary: acc tr)
  case Nil
  then show ?case by simp
next
  case (Cons f fs)
  note ih = Cons [of _ _]
  show ?case
  proof (cases "mention_handle f")
    case None
    show ?thesis
      by (simp add: None) (subst ih, subst (2 3) ih, simp)
  next
    case (Some h)
    show ?thesis
    proof (cases "resolveHandle net opts h sig tr")
      case (Pair r tr')
      show ?thesis
      proof (cases r)
        case (Inl e)
        with Pair Some show ?thesis by (simp add: ih [of acc tr'])
      next
        case (Inr d)
        with Pair Some show ?thesis
          by simp (subst ih, subst (2 3) ih, simp)
      qed
    qed
  qed
qed

lemma resolveFacets_acc:
  "resolveFacets net opts sig fcs acc tr =
     (acc @ fst (resolveFacets net opts sig fcs [] tr), snd (resolveFacets net opts sig fcs [] tr))"
proof (induction fcs arbitrary: acc tr)
  case Nil
  then show ?case by simp
next
  case (Cons fc fcs)
  note ih = Cons [of _ _]
  obtain pf tr' where r: "resolveFeatures net opts sig (features fc) [] tr = (pf, tr')"
    by (cases "resolveFeatures net opts sig (features fc) [] tr")
  show ?case
  proof (cases "pf = []")
    case True
    with r show ?thesis by (simp add: ih [of acc tr'])
  next
    case False
    with r show ?thesis by simp (subst ih, subst (2 3) ih, simp)
  qed
qed

lemma resolveFacets_Cons:
  "resolveMentionFacets net opts (fc # fcs) sig tr =
     (case resolveFeatures net opts sig (features fc) [] tr of
        (pf, tr') \<Rightarrow>
          (case resolveMentionFacets net opts fcs sig tr' of
             (r, tr'') \<Rightarrow> ((if pf = [] then [] else [fc\<lparr>features := pf\<rparr>]) @ r, tr'')))"
proof -
  obtain pf tr' where r: "resolveFeatures net opts sig (features fc) [] tr = (pf, tr')"
    by (cases "resolveFeatures net opts sig (features fc) [] tr")
  show ?thesis
    unfolding resolveMentionFacets_def
    by (simp add: r) (subst resolveFacets_acc, simp add: split_beta)
qed

lemma resolveFacets_append:
  "resolveMentionFacets net opts (a @ b) sig tr =
     (case resolveMentionFacets net opts a sig tr of
        (r1, tr1) \<Rightarrow>
          (case resolveMentionFacets net opts b sig tr1 of (r2, tr2) \<Rightarrow> (r1 @ r2, tr2)))"
proof (induction a arbitrary: tr)
  case Nil
  then show ?case by (simp add: resolveMentionFacets_def split_beta)
next
  case (Cons fc a)
  show ?case
    by (simp add: resolveFacets_Cons Cons split_beta)
qed

lemma resolveFeatures_single:
  "mention_handle f = Some h \<Longrightarrow>
     resolveFeatures net opts sig [f] [] tr =
       (case resolveHandle net opts h sig tr of
          (Inr d, tr') \<Rightarrow> ([f\<lparr>fdid := d\<rparr>], tr')
        | (Inl e, tr') \<Rightarrow> ([], tr'))"
  by (simp split: prod.splits sum.splits)

lemma resolveFacets_index_subseq:
  "subseq (map index (fst (resolveMentionFacets net opts fcs sig tr))) (map index fcs)"
proof (induction fcs arbitrary: tr)
  case Nil
  then show ?case by (simp add: resolveMentionFacets_def)
next
  case (Cons fc fcs)
  obtain pf tr' where r: "resolveFeatures net opts sig (features fc) [] tr = (pf, tr')"
    by (cases "resolveFeatures net opts sig (features fc) [] tr")
  from Cons [of tr'] show ?case
    by (auto simp: resolveFacets_Cons r split_beta)
qed

lemma subseq_sorted: "subseq xs ys \<Longrightarrow> sorted ys \<Longrightarrow> sorted xs"
  by (auto simp: subseq_conv_nths sorted_nths)

lemma resolveFacets_sorted:
  assumes "sorted (map (byteStart \<circ> index) fcs)"
  shows "sorted (map (byteStart \<circ> index) (fst (resolveMentionFacets net opts fcs sig tr)))"
proof -
  from subseq_map [OF resolveFacets_index_subseq [of net opts fcs sig tr], of byteStart]
  have "subseq (map (byteStart \<circ> index) (fst (resolveMentionFacets net opts fcs sig tr)))
          (map (byteStart \<circ> index) fcs)" by simp
  with assms show ?thesis by (rule subseq_sorted [rotated])
qed

lemma resolveFacets_drop:
  assumes "features fc = [f]" "mention_handle f = Some h"
      and "resolveMentionFacets net opts pre sig tr = (r1, tr1)"
      and "resolveHandle net opts h sig tr1 = (Inl e, tr2)"
      and "resolveMentionFacets net opts rest sig tr2 = (r2, tr3)"
  shows "resolveMentionFacets net opts (pre @ fc # rest) sig tr = (r1 @ r2, tr3)"
  using assms by (simp add: resolveFacets_append resolveFacets_Cons)

lemma resolveFacets_keep:
  assumes "features fc = [f]" "mention_handle f = Some h"
      and "resolveMentionFacets net opts pre sig tr = (r1, tr1)"
      and "resolveHandle net opts h sig tr1 = (Inr d, tr2)"
      and "resolveMentionFacets net opts rest sig tr2 = (r2, tr3)"
  shows "resolveMentionFacets net opts (pre @ fc # rest) sig tr =
           (r1 @ fc\<lparr>features := [f\<lparr>fdid := d\<rparr>]\<rparr> # r2, tr3)"
  using assms by (simp add: resolveFacets_append resolveFacets_Cons)

lemma resolveFacets_Nil [simp]: "resolveMentionFacets net opts [] sig tr = ([], tr)"
  by (simp add: resolveMentionFacets_def)

lemma post_one_of_two_mentions:
  assumes t: "truthy (Some m)" and v: "validatePostOptions_impl rt po = Inr ()"
      and i: "images_of po = []"
      and d: "facets (detectFacets_impl rt m) = [fa, fb] \<or> facets (detectFacets_impl rt m) = [fb, fa]"
      and fa: "features fa = [ma]" "mention_handle ma = Some ha"
      and fb: "features fb = [mb]" "mention_handle mb = Some hb"
      and ns: "\<forall>h. network_impl rt h (session_request (options this) (signal_of po)) =
                  Inr (ok_response sess)"
      and na: "\<forall>h. fst (resolveHandle (network_impl rt) (options this) ha (signal_of po) h) = Inr dd"
      and nb: "\<forall>h. \<exists>e. fst (resolveHandle (network_impl rt) (options this) hb (signal_of po) h) = Inl e"
      and nr: "\<forall>h body. network_impl rt h (record_request (options this) sess (signal_of po) body) =
                  Inr (ok_response b)"
  shows "\<exists>h. post rt this (Some m) po tr =
           (Inr b, h @ [record_request (options this) sess (signal_of po)
                          (post_body rt sess m [fa\<lparr>features := [ma\<lparr>fdid := dd\<rparr>]\<rparr>] [])])"
proof -
  let ?net = "network_impl rt" and ?o = "options this" and ?s = "signal_of po"
  from t v obtain m' where m': "Some m = Some m'" and p: "post rt this (Some m) po tr =
       (case createSession ?net ?o ?s tr of
          (Inl e, tr') \<Rightarrow> (Inl e, tr')
        | (Inr session, tr') \<Rightarrow> postMessage rt ?o session m' po tr')"
    by (rule post_accepted)
  have c: "createSession ?net ?o ?s tr = (Inr sess, tr @ [session_request ?o ?s])"
    using ns [rule_format, of tr]
    by (simp add: createSession_def fetch_def ok_response_def session_request_def)
  have ra: "\<And>h. \<exists>h'. resolveHandle ?net ?o ha ?s h = (Inr dd, h')"
    using na by (metis prod.collapse)
  have rb: "\<And>h. \<exists>e h'. resolveHandle ?net ?o hb ?s h = (Inl e, h')"
    using nb by (metis prod.collapse)
  have "\<exists>tr1. resolveMentionFacets ?net ?o (facets (detectFacets_impl rt m)) ?s
          (tr @ [session_request ?o ?s]) = ([fa\<lparr>features := [ma\<lparr>fdid := dd\<rparr>]\<rparr>], tr1)"
  proof -
    from d show ?thesis
    proof
      assume o1: "facets (detectFacets_impl rt m) = [fa, fb]"
      obtain h1 where h1: "resolveHandle ?net ?o ha ?s (tr @ [session_request ?o ?s]) = (Inr dd, h1)"
        using ra by blast
      obtain e h2 where h2: "resolveHandle ?net ?o hb ?s h1 = (Inl e, h2)"
        using rb by blast
      from resolveFacets_keep [OF fa _ h1, of "[]" "tr @ [session_request ?o ?s]" "[]" "[fb]" "[]" h2]
        resolveFacets_drop [OF fb _ h2, of "[]" h1 "[]" "[]" "[]" h2] o1
      show ?thesis by simp
    next
      assume o2: "facets (detectFacets_impl rt m) = [fb, fa]"
      obtain e h1 where h1: "resolveHandle ?net ?o hb ?s (tr @ [session_request ?o ?s]) = (Inl e, h1)"
        using rb by blast
      obtain h2 where h2: "resolveHandle ?net ?o ha ?s h1 = (Inr dd, h2)"
        using ra by blast
      from resolveFacets_drop [OF fb _ h1, of "[]" "tr @ [session_request ?o ?s]" "[]" "[fa]"
             "[fa\<lparr>features := [ma\<lparr>fdid := dd\<rparr>]\<rparr>]" h2]
        resolveFacets_keep [OF fa _ h2, of "[]" h1 "[]" "[]" "[]" h2] o2
      show ?thesis by simp
    qed
  qed
  then obtain tr1 where r: "resolveMentionFacets ?net ?o (facets (detectFacets_impl rt m)) ?s
          (tr @ [session_request ?o ?s]) = ([fa\<lparr>features := [ma\<lparr>fdid := dd\<rparr>]\<rparr>], tr1)" by blast
  from postMessage_no_images [OF r i, of sess] p c m' nr [rule_format, of tr1]
  have "post rt this (Some m) po tr =
          (Inr b, tr1 @ [record_request ?o sess ?s
                          (post_body rt sess m [fa\<lparr>features := [ma\<lparr>fdid := dd\<rparr>]\<rparr>] [])])"
    by (simp add: outcome_of_def ok_response_def)
  then show ?thesis by blast
qed

section \<open>Properties of the broadcaster\<close>

lemma length_settle_all [simp]:
  "length (settle_all adapters msg po cs slots) = length slots"
  by (induction cs arbitrary: slots) auto

lemma settle_all_nth:
  "i < length slots \<Longrightarrow>
     settle_all adapters msg po cs slots ! i =
       (if i \<in> set cs then Some (outcome (adapters ! i) msg po) else slots ! i)"
proof (induction cs arbitrary: slots)
  case Nil
  then show ?case by simp
next
  case (Cons c cs)
  show ?case
  proof (cases "c < length slots")
    case True
    from Cons.prems Cons.IH [of "slots[c := Some (outcome (adapters ! c) msg po)]"] True
    show ?thesis by (auto simp: nth_list_update)
  next
    case False
    with Cons.prems Cons.IH [of slots] show ?thesis by auto
  qed
qed

lemma join_map_Some: "join (map Some ys) = Some ys"
  by (induction ys) simp_all

lemma settle_all_complete:
  assumes "{..<length adapters} \<subseteq> set cs"
  shows "settle_all adapters msg po cs (replicate (length adapters) None) =
           map Some (map (\<lambda>a. outcome a msg po) adapters)"
proof (rule nth_equalityI)
  show "length (settle_all adapters msg po cs (replicate (length adapters) None)) =
        length (map Some (map (\<lambda>a. outcome a msg po) adapters))" by simp
next
  fix i assume "i < length (settle_all adapters msg po cs (replicate (length adapters) None))"
  then have i: "i < length adapters" by simp
  with assms have "i \<in> set cs" by auto
  with i show "settle_all adapters msg po cs (replicate (length adapters) None) ! i =
        map Some (map (\<lambda>a. outcome a msg po) adapters) ! i"
    by (simp add: settle_all_nth)
qed

lemma broadcast_complete:
  "{..<length adapters} \<subseteq> set cs \<Longrightarrow>
     broadcast adapters msg po cs = Some (map (\<lambda>a. outcome a msg po) adapters)"
  by (simp add: broadcast_def settle_all_complete join_map_Some del: map_map)

lemma report_aligned:
  "k \<le> length strategies \<Longrightarrow>
   report strategies (map f (drop k strategies)) k c =
     Inr (concat (map (\<lambda>a. entry_lines a (f a)) (drop k strategies)),
          if \<exists>a \<in> set (drop k strategies). is_failure (f a) then 1 else c)"
proof (induction "length strategies - k" arbitrary: k c)
  case 0
  then show ?case by simp
next
  case (Suc n)
  then have k: "k < length strategies" by simp
  then have d: "drop k strategies = strategies ! k # drop (Suc k) strategies"
    by (simp add: Cons_nth_drop_Suc)
  from Suc(2) have n: "n = length strategies - Suc k" by simp
  from k have le: "Suc k \<le> length strategies" by simp
  show ?case
    unfolding d
    by (cases "f (strategies ! k)") (simp_all add: k Suc(1) [OF n le] is_failure_def)
qed

text \<open>
  Claim C1. Whatever the order in which the calls of the \<open>N\<close> adapters complete, the
  broadcaster returns a list of length \<open>N\<close> whose entry \<open>i\<close> is the outcome of the
  \<open>post\<close> of adapter \<open>i\<close>; replacing any one adapter by another (one that fails, say)
  leaves the entry of every other adapter as it was; and the command line program,
  which reads entry \<open>i\<close> as the outcome of \<open>strategies[i]\<close>, reports each adapter with
  its own outcome and exits with 1 exactly when one of them failed.
\<close>

theorem broadcast_aligned:
  assumes "set completions = {..<length adapters}"
  shows "\<exists>out. broadcast adapters msg po completions = Some out \<and>
           length out = length adapters \<and>
           (\<forall>i < length adapters. out ! i = outcome (adapters ! i) msg po) \<and>
           (\<forall>i < length adapters. \<forall>j < length adapters. i \<noteq> j \<longrightarrow>
              (\<exists>out'. broadcast (adapters[i := other]) msg po completions = Some out' \<and>
                      out' ! j = out ! j)) \<and>
           report adapters out 0 0 =
             Inr (concat (map (\<lambda>a. entry_lines a (outcome a msg po)) adapters),
                  if \<exists>a \<in> set adapters. is_failure (outcome a msg po) then 1 else 0)"
proof -
  from assms have c: "{..<length adapters} \<subseteq> set completions" by simp
  then have c': "{..<length (adapters[i := other])} \<subseteq> set completions" for i by simp
  from report_aligned [of 0 adapters "\<lambda>a. outcome a msg po" 0]
  have r: "report adapters (map (\<lambda>a. outcome a msg po) adapters) 0 0 =
             Inr (concat (map (\<lambda>a. entry_lines a (outcome a msg po)) adapters),
                  if \<exists>a \<in> set adapters. is_failure (outcome a msg po) then 1 else 0)"
    by simp
  let ?out = "map (\<lambda>a. outcome a msg po) adapters"
  have iso: "\<exists>out'. broadcast (adapters[i := other]) msg po completions = Some out' \<and>
                      out' ! j = ?out ! j"
    if "i < length adapters" "j < length adapters" "i \<noteq> j" for i j
    using that by (simp add: broadcast_complete [OF c'] nth_list_update)
  have "broadcast adapters msg po completions = Some ?out \<and>
           length ?out = length adapters \<and>
           (\<forall>i < length adapters. ?out ! i = outcome (adapters ! i) msg po) \<and>
           (\<forall>i < length adapters. \<forall>j < length adapters. i \<noteq> j \<longrightarrow>
              (\<exists>out'. broadcast (adapters[i := other]) msg po completions = Some out' \<and>
                      out' ! j = ?out ! j)) \<and>
           report adapters ?out 0 0 =
             Inr (concat (map (\<lambda>a. entry_lines a (outcome a msg po)) adapters),
                  if \<exists>a \<in> set adapters. is_failure (outcome a msg po) then 1 else 0)"
    using broadcast_complete [OF c] r iso by simp
  then show ?thesis by (rule exI)
qed

theorem broadcast_aligned_witness:
  "set [2, 0, 1] =
     {..<length [echo_adapter (js ''a''), failing_adapter (js ''b''), echo_adapter (js ''c'')]} \<and>
   broadcast [echo_adapter (js ''a''), failing_adapter (js ''b''), echo_adapter (js ''c'')]
     (js ''hi'') Undefined [2, 0, 1] =
     Some [Success (Some (js ''a/hi'')) (body_with_uri (Some (js ''a/hi''))),
           Failure (Error (js ''Failed to post'')),
           Success (Some (js ''c/hi'')) (body_with_uri (Some (js ''c/hi'')))]"
proof -
  have s: "set [2, 0, 1] =
     {..<length [echo_adapter (js ''a''), failing_adapter (js ''b''), echo_adapter (js ''c'')]}"
    by (auto simp: lessThan_def)
  have e: "broadcast [echo_adapter (js ''a''), failing_adapter (js ''b''), echo_adapter (js ''c'')]
     (js ''hi'') Undefined [2, 0, 1] =
     Some [Success (Some (js ''a/hi'')) (body_with_uri (Some (js ''a/hi''))),
           Failure (Error (js ''Failed to post'')),
           Success (Some (js ''c/hi'')) (body_with_uri (Some (js ''c/hi'')))]"
    by code_simp
  from broadcast_aligned [OF s, of "js ''hi''" Undefined] obtain out where
    "broadcast [echo_adapter (js ''a''), failing_adapter (js ''b''), echo_adapter (js ''c'')]
       (js ''hi'') Undefined [2, 0, 1] = Some out"
    "length out = length [echo_adapter (js ''a''), failing_adapter (js ''b''), echo_adapter (js ''c'')]"
    by blast
  with s e show ?thesis by simp
qed

section \<open>Properties of the UTF-8 length\<close>

lemma cp_size_pos: "0 < cp_size n"
  by (simp add: cp_size_def utf8_bytes_def)

lemma byteLength_sum: "byteLength s = sum_list (map cp_size (codePoints s))"
proof -
  have "cp_size = (\<lambda>n. length (utf8_bytes n))"
    by (rule ext) (simp add: cp_size_def)
  then show ?thesis
    by (simp add: byteLength_def utf8_def length_concat comp_def)
qed

lemma codePoints_not_Nil: "s \<noteq> [] \<Longrightarrow> codePoints s \<noteq> []"
  by (cases s rule: codePoints.cases) auto

lemma byteLength_pos: "s \<noteq> [] \<Longrightarrow> 0 < byteLength s"
proof -
  assume "s \<noteq> []"
  then obtain n ns where "codePoints s = n # ns"
    using codePoints_not_Nil [of s] by (cases "codePoints s") auto
  then show ?thesis using cp_size_pos [of n] by (simp add: byteLength_sum)
qed

lemma byteLength_Nil [simp]: "byteLength [] = 0"
  by (simp add: byteLength_sum)

lemma high_size: "is_high_surrogate x \<Longrightarrow> cp_size (unat x) = 3"
  by (auto simp: is_high_surrogate_def word_le_nat_alt cp_size_def utf8_bytes_def)

lemma pair_size:
  "cp_size (0x10000 + (unat x - 0xD800) * 0x400 + (unat y - 0xDC00)) = 4"
  by (simp add: cp_size_def utf8_bytes_def)

lemma byteLength_append_less:
  "b \<noteq> [] \<Longrightarrow> byteLength a < byteLength (a @ b)"
proof (induction a rule: codePoints.induct)
  case 1
  then show ?case by (simp add: byteLength_pos)
next
  case (2 x)
  then obtain y r where b: "b = y # r" by (cases b) auto
  have "0 < byteLength (y # r)" by (rule byteLength_pos) simp
  then show ?case
    using high_size [of x] pair_size [of x y]
    by (auto simp: b byteLength_sum)
next
  case (3 x y r)
  then show ?case by (auto simp: byteLength_sum)
qed

lemma byteLength_append_le: "byteLength a \<le> byteLength (a @ b)"
  using byteLength_append_less [of b a] by (cases "b = []") auto

lemma byteLength_prefix: "prefix a b \<Longrightarrow> byteLength a \<le> byteLength b"
  by (auto simp: prefix_def byteLength_append_le)

lemma codePoints_append:
  "\<not> starts_low b \<Longrightarrow> codePoints (a @ b) = codePoints a @ codePoints b"
proof (induction a rule: codePoints.induct)
  case 1
  then show ?case by simp
next
  case (2 x)
  then show ?case by (cases b) simp_all
next
  case (3 x y r)
  then show ?case by simp
qed

lemma utf8_append: "\<not> starts_low b \<Longrightarrow> utf8 (a @ b) = utf8 a @ utf8 b"
  by (simp add: utf8_def codePoints_append)

section \<open>Properties of the candidates\<close>

lemma takeWhile_drop_le:
  "k \<le> length s \<Longrightarrow> k + length (takeWhile P (drop k s)) \<le> length s"
  using length_takeWhile_le [of P "drop k s"] by simp

lemma url_match_le: "url_match s = Some n \<Longrightarrow> n \<le> length s"
  using takeWhile_drop_le [of 8 s "\<lambda>u. \<not> is_ws u"] takeWhile_drop_le [of 7 s "\<lambda>u. \<not> is_ws u"]
  by (auto simp: url_match_def js_def split: if_splits dest!: prefix_length_le)

lemma length_handle_of: "length (handle_of s) \<le> length s"
proof -
  have "length (handle_of s) \<le> length (takeWhile is_handle_char s)"
    unfolding handle_of_def using length_dropWhile_le [of _ "rev (takeWhile is_handle_char s)"]
    by simp
  also have "\<dots> \<le> length s" by (rule length_takeWhile_le)
  finally show ?thesis .
qed

lemma mention_match_le: "mention_match s = Some n \<Longrightarrow> n \<le> length s"
  using length_handle_of [of "tl s"]
  by (auto simp: mention_match_def split: list.splits if_splits)

lemma hashtag_match_le: "hashtag_match s = Some n \<Longrightarrow> n \<le> length s"
  using length_takeWhile_le [of is_tag_char "tl s"]
  by (auto simp: hashtag_match_def split: list.splits if_splits)

text \<open>What the scanner yields: matches of the pattern, at their positions.\<close>

lemma scan_sound:
  "c \<in> set (scan m k pos s) \<Longrightarrow>
     c_kind c = k \<and> 0 < c_len c \<and>
     (\<exists>p. c_start c = pos + p \<and> m (drop p s) = Some (c_len c))"
proof (induction m k pos s rule: scan.induct)
  case (1 m k pos)
  then show ?case by simp
next
  case (2 m k pos x xs)
  show ?case
  proof (cases "m (x # xs)")
    case None
    with 2 obtain p where "c_kind c = k" "0 < c_len c" "c_start c = Suc pos + p"
      "m (drop p xs) = Some (c_len c)" by auto
    then show ?thesis by (intro conjI exI [of _ "Suc p"]) auto
  next
    case (Some n)
    show ?thesis
    proof (cases "0 < n")
      case False
      with Some 2 obtain p where "c_kind c = k" "0 < c_len c" "c_start c = Suc pos + p"
        "m (drop p xs) = Some (c_len c)" by auto
      then show ?thesis by (intro conjI exI [of _ "Suc p"]) auto
    next
      case True
      show ?thesis
      proof (cases "c = Candidate k pos n")
        case True
        with Some \<open>0 < n\<close> show ?thesis by (intro conjI exI [of _ 0]) auto
      next
        case False
        with 2 Some True obtain p where p: "c_kind c = k" "0 < c_len c" "c_start c = pos + n + p"
          "m (drop p (drop n (x # xs))) = Some (c_len c)" by auto
        then show ?thesis
          by (intro conjI exI [of _ "n + p"]) (auto simp: add.commute)
      qed
    qed
  qed
qed

lemma span_in_text:
  assumes "m (drop p t) = Some n" "0 < n" "\<And>s n. m s = Some n \<Longrightarrow> n \<le> length s"
  shows "p + n \<le> length t"
  using assms(3) [OF assms(1)] assms(2) by simp

lemma candidates_valid: "c \<in> set (candidates t) \<Longrightarrow> valid_span t c"
proof -
  assume "c \<in> set (candidates t)"
  then consider "c \<in> set (scan url_match Link 0 t)" | "c \<in> set (scan mention_match Mention 0 t)"
    | "c \<in> set (scan hashtag_match Hashtag 0 t)" by (auto simp: candidates_def)
  then show ?thesis
  proof cases
    case 1
    from scan_sound [OF 1] show ?thesis
      by (auto simp: valid_span_def intro: span_in_text [of url_match] url_match_le)
  next
    case 2
    from scan_sound [OF 2] show ?thesis
      by (auto simp: valid_span_def intro: span_in_text [of mention_match] mention_match_le)
  next
    case 3
    from scan_sound [OF 3] show ?thesis
      by (auto simp: valid_span_def intro: span_in_text [of hashtag_match] hashtag_match_le)
  qed
qed

lemma set_claim: "set (claim acc cs) \<subseteq> set acc \<union> set cs"
proof (induction cs arbitrary: acc)
  case Nil
  then show ?case by simp
next
  case (Cons c cs)
  show ?case
    using Cons [of acc] Cons [of "acc @ [c]"] by (cases "list_ex (overlaps c) acc") auto
qed

lemma claimed_spans_subset: "set (claimed_spans t) \<subseteq> set (candidates t)"
  using set_claim [of "[]" "sort_key (\<lambda>c. - int (c_len c)) (candidates t)"]
  by (simp add: claimed_spans_def)

lemma claimed_spans_valid: "c \<in> set (claimed_spans t) \<Longrightarrow> valid_span t c"
  using claimed_spans_subset candidates_valid by blast

section \<open>Properties of the rendering\<close>

lemma render_acc:
  "render t pos cs out fcs =
     \<lparr>facets = fcs @ facets (render t pos cs out []), text' = text' (render t pos cs out [])\<rparr>"
proof (induction cs arbitrary: pos out fcs)
  case Nil
  then show ?case by simp
next
  case (Cons c cs)
  show ?case
    by (simp add: Let_def) (subst Cons, subst (2 3) Cons, simp)
qed

lemma render_Cons:
  "render t pos (c # cs) out [] =
     \<lparr>facets =
        \<lparr>index = \<lparr>byteStart = byteLength (out @ take (c_start c - pos) (drop pos t)),
                  byteEnd = byteLength (out @ take (c_start c - pos) (drop pos t) @
                              shown (c_kind c) (take (c_len c) (drop (c_start c) t)))\<rparr>,
         features = [feature_of (c_kind c) (take (c_len c) (drop (c_start c) t))]\<rparr> #
        facets (render t (c_start c + c_len c) cs
                 (out @ take (c_start c - pos) (drop pos t) @
                  shown (c_kind c) (take (c_len c) (drop (c_start c) t))) []),
      text' = text' (render t (c_start c + c_len c) cs
                 (out @ take (c_start c - pos) (drop pos t) @
                  shown (c_kind c) (take (c_len c) (drop (c_start c) t))) [])\<rparr>"
  by (simp add: Let_def) (subst render_acc, simp)

lemma render_text_prefix: "prefix out (text' (render t pos cs out fcs))"
proof (induction cs arbitrary: pos out fcs)
  case Nil
  then show ?case by simp
next
  case (Cons c cs)
  have "prefix out (out @ take (c_start c - pos) (drop pos t) @
          shown (c_kind c) (take (c_len c) (drop (c_start c) t)))" by simp
  also have "prefix \<dots> (text' (render t (c_start c + c_len c) cs
      (out @ take (c_start c - pos) (drop pos t) @
          shown (c_kind c) (take (c_len c) (drop (c_start c) t)))
      (fcs @ [\<lparr>index = \<lparr>byteStart = byteLength (out @ take (c_start c - pos) (drop pos t)),
                  byteEnd = byteLength (out @ take (c_start c - pos) (drop pos t) @
                              shown (c_kind c) (take (c_len c) (drop (c_start c) t)))\<rparr>,
         features = [feature_of (c_kind c) (take (c_len c) (drop (c_start c) t))]\<rparr>])))"
    by (rule Cons)
  finally show ?case by (simp add: Let_def)
qed

lemma shown_not_Nil: "valid_span t c \<Longrightarrow> shown (c_kind c) (take (c_len c) (drop (c_start c) t)) \<noteq> []"
  by (cases "c_kind c") (auto simp: valid_span_def shown_def truncateUrl_def js_def)

lemma render_ranges:
  "\<forall>c \<in> set cs. valid_span t c \<Longrightarrow>
     ranges_ok (byteLength out) (byteLength (text' (render t pos cs out [])))
       (facets (render t pos cs out []))"
proof (induction cs arbitrary: pos out)
  case Nil
  then show ?case by (simp add: byteLength_append_le)
next
  case (Cons c cs)
  let ?head = "out @ take (c_start c - pos) (drop pos t)"
  let ?tok = "shown (c_kind c) (take (c_len c) (drop (c_start c) t))"
  from Cons.prems have v: "valid_span t c" and vs: "\<forall>c \<in> set cs. valid_span t c" by simp_all
  have 1: "byteLength out \<le> byteLength ?head" by (rule byteLength_append_le)
  have 2: "byteLength ?head < byteLength (?head @ ?tok)"
    using shown_not_Nil [OF v] by (rule byteLength_append_less)
  from Cons.IH [OF vs, where out = "?head @ ?tok" and pos = "c_start c + c_len c"] 1 2
  show ?case by (simp add: render_Cons del: render.simps)
qed

lemma ranges_ok_le: "ranges_ok lo hi fcs \<Longrightarrow> lo \<le> hi"
proof (induction fcs arbitrary: lo)
  case Nil
  then show ?case by simp
next
  case (Cons f fs)
  from Cons.prems Cons.IH [of "byteEnd (index f)"] show ?case by simp
qed

lemma ranges_ok_bounds:
  "ranges_ok lo hi fcs \<Longrightarrow> fc \<in> set fcs \<Longrightarrow>
     lo \<le> byteStart (index fc) \<and> byteStart (index fc) < byteEnd (index fc) \<and>
     byteEnd (index fc) \<le> hi"
proof (induction fcs arbitrary: lo)
  case Nil
  then show ?case by simp
next
  case (Cons f fs)
  show ?case
  proof (cases "fc = f")
    case True
    with Cons.prems ranges_ok_le [of "byteEnd (index f)" hi fs] show ?thesis by simp
  next
    case False
    with Cons.prems Cons.IH [of "byteEnd (index f)"] show ?thesis by auto
  qed
qed

lemma ranges_ok_chain:
  "ranges_ok lo hi fcs \<Longrightarrow>
     sorted_wrt (\<lambda>a b. byteEnd (index a) \<le> byteStart (index b)) fcs"
proof (induction fcs arbitrary: lo)
  case Nil
  then show ?case by simp
next
  case (Cons f fs)
  then have r: "ranges_ok (byteEnd (index f)) hi fs" by simp
  from ranges_ok_bounds [OF r] Cons.IH [OF r] show ?case by simp
qed

section \<open>Properties of the facet detector\<close>

lemma list_all2_right:
  "list_all2 P xs ys \<Longrightarrow> y \<in> set ys \<Longrightarrow> \<exists>x \<in> set xs. P x y"
  by (induction rule: list_all2_induct) auto

lemma token_length:
  "valid_span t c \<Longrightarrow> length (take (c_len c) (drop (c_start c) t)) = c_len c"
  by (auto simp: valid_span_def)

lemma mention_match_head: "mention_match s = Some n \<Longrightarrow> \<exists>r. s = 64 # r"
  by (auto simp: mention_match_def split: list.splits if_splits)

lemma hashtag_match_head: "hashtag_match s = Some n \<Longrightarrow> \<exists>r. s = 35 # r"
  by (auto simp: hashtag_match_def split: list.splits if_splits)

lemma starts_low_take:
  "0 < n \<Longrightarrow> starts_low (take n s) = starts_low s"
  by (cases s; cases n) simp_all

lemma shown_not_low:
  assumes "valid_span t c"
  shows "\<not> starts_low (shown (c_kind c) (take (c_len c) (drop (c_start c) t)))"
proof (cases "c_kind c")
  case Link
  with assms have m: "url_match (drop (c_start c) t) = Some (c_len c)" and l: "0 < c_len c"
    by (simp_all add: valid_span_def)
  from url_match_head [OF m] obtain r where "drop (c_start c) t = 104 # r" by auto
  with l Link show ?thesis
    by (cases "c_len c") (simp_all add: shown_def truncateUrl_def is_low_surrogate_def)
next
  case Mention
  with assms have m: "mention_match (drop (c_start c) t) = Some (c_len c)" and l: "0 < c_len c"
    by (simp_all add: valid_span_def)
  from mention_match_head [OF m] obtain r where "drop (c_start c) t = 64 # r" by auto
  with l Mention show ?thesis
    by (cases "c_len c") (simp_all add: shown_def is_low_surrogate_def)
next
  case Hashtag
  with assms have m: "hashtag_match (drop (c_start c) t) = Some (c_len c)" and l: "0 < c_len c"
    by (simp_all add: valid_span_def)
  from hashtag_match_head [OF m] obtain r where "drop (c_start c) t = 35 # r" by auto
  with l Hashtag show ?thesis
    by (cases "c_len c") (simp_all add: shown_def is_low_surrogate_def)
qed

lemma link_kind:
  "ftype (feature_of k tok) = js ''app.bsky.richtext.facet#link'' \<Longrightarrow> k = Link"
  by (cases k) (simp_all add: feature_of_def js_def)


lemma detectFacets_ranges_ok:
  "ranges_ok 0 (byteLength (text' (detectFacets t))) (facets (detectFacets t))"
  using render_ranges [of "claimed_spans t" t "[]" 0] claimed_spans_valid [of _ t]
  by (simp add: detectFacets_def)

lemma detectFacets_empty: "facets (detectFacets []) = []"
  by (simp add: detectFacets_def claimed_spans_def candidates_def)

text \<open>
  Claim C4. The facets that the detector returns are in ascending order of \<open>byteStart\<close>;
  each facet ends before or where the next one starts; every facet satisfies
  \<open>0 \<le> byteStart < byteEnd \<le> byteLength(text)\<close>, where the text is the rewritten text
  that is returned with the facets; and the empty text has no facets.
\<close>

theorem detectFacets_ranges:
  "sorted (map (byteStart \<circ> index) (facets (detectFacets t))) \<and>
   (\<forall>i. Suc i < length (facets (detectFacets t)) \<longrightarrow>
      byteEnd (index (facets (detectFacets t) ! i)) \<le>
        byteStart (index (facets (detectFacets t) ! Suc i))) \<and>
   (\<forall>fc \<in> set (facets (detectFacets t)).
      0 \<le> byteStart (index fc) \<and> byteStart (index fc) < byteEnd (index fc) \<and>
      byteEnd (index fc) \<le> byteLength (text' (detectFacets t))) \<and>
   facets (detectFacets []) = []"
proof -
  let ?fcs = "facets (detectFacets t)"
  note r = detectFacets_ranges_ok [of t]
  have chain: "sorted_wrt (\<lambda>a b. byteEnd (index a) \<le> byteStart (index b)) ?fcs"
    using r by (rule ranges_ok_chain)
  have b: "\<And>fc. fc \<in> set ?fcs \<Longrightarrow> byteStart (index fc) < byteEnd (index fc) \<and>
      byteEnd (index fc) \<le> byteLength (text' (detectFacets t))"
    using ranges_ok_bounds [OF r] by blast
  have "sorted_wrt (\<lambda>a b. byteStart (index a) \<le> byteStart (index b)) ?fcs"
  proof (rule sorted_wrt_mono_rel [OF _ chain])
    fix a b assume "a \<in> set ?fcs" "b \<in> set ?fcs" "byteEnd (index a) \<le> byteStart (index b)"
    with b [of a] show "byteStart (index a) \<le> byteStart (index b)" by simp
  qed
  then have s: "sorted (map (byteStart \<circ> index) ?fcs)"
    by (simp add: sorted_map)
  have adj: "\<forall>i. Suc i < length ?fcs \<longrightarrow>
      byteEnd (index (?fcs ! i)) \<le> byteStart (index (?fcs ! Suc i))"
    using chain by (simp add: sorted_wrt_iff_nth_less)
  from s adj b detectFacets_empty show ?thesis by simp
qed

lemma detect_hello_link:
  "detectFacets hello_link =
     \<lparr>facets = [link_facet 14 33 (js ''https://example.com'')], text' = hello_link\<rparr>"
  by code_simp

lemma detect_hello_mentions:
  "detectFacets hello_mentions =
     \<lparr>facets = [mention_facet 6 12 (js ''alice''), mention_facet 17 33 (js ''bob.example.com'')],
      text' = hello_mentions\<rparr>"
  by code_simp

lemma resolve_hello_mentions:
  "fst (resolveMentionFacets two_handles_network example_options
          [mention_facet 6 12 (js ''alice''), mention_facet 17 33 (js ''bob.example.com'')]
          None []) =
     [mention_facet 6 12 (js ''did:plc:alice123''), mention_facet 17 33 (js ''did:plc:bob456'')]"
  by code_simp

lemma detect_accented_link:
  "detectFacets accented_link =
     \<lparr>facets = [link_facet 8 27 (js ''https://example.com'')], text' = accented_link\<rparr>"
  by code_simp


lemma detect_threshold_urls:
  "detectFacets threshold_urls =
     \<lparr>facets = [link_facet 2 29 (js ''https://example.com/1234567''),
                 link_facet 32 59 (js ''https://example.com/12345678'')],
      text' = js ''a https://example.com/1234567 b https://example.com/1234... c''\<rparr>"
  by code_simp

theorem detectFacets_ranges_witness:
  "map index (facets (detectFacets threshold_urls)) =
     [\<lparr>byteStart = 2, byteEnd = 29\<rparr>, \<lparr>byteStart = 32, byteEnd = 59\<rparr>] \<and>
   Suc 0 < length (facets (detectFacets threshold_urls)) \<and>
   byteEnd (index (facets (detectFacets threshold_urls) ! 0)) \<le>
     byteStart (index (facets (detectFacets threshold_urls) ! Suc 0)) \<and>
   byteEnd (index (facets (detectFacets threshold_urls) ! Suc 0)) \<le>
     byteLength (text' (detectFacets threshold_urls))"
proof -
  have e: "map index (facets (detectFacets threshold_urls)) =
     [\<lparr>byteStart = 2, byteEnd = 29\<rparr>, \<lparr>byteStart = 32, byteEnd = 59\<rparr>]"
    and l: "Suc 0 < length (facets (detectFacets threshold_urls))"
    and m: "facets (detectFacets threshold_urls) ! Suc 0 \<in> set (facets (detectFacets threshold_urls))"
    by (simp_all add: detect_threshold_urls link_facet_def)
  from detectFacets_ranges [of threshold_urls] l m
  have "byteEnd (index (facets (detectFacets threshold_urls) ! 0)) \<le>
     byteStart (index (facets (detectFacets threshold_urls) ! Suc 0))"
    and "byteEnd (index (facets (detectFacets threshold_urls) ! Suc 0)) \<le>
     byteLength (text' (detectFacets threshold_urls))"
    by blast+
  with e l show ?thesis by blast
qed

section \<open>Properties of the byte ranges\<close>

lemma codePoints_append_not_high:
  "\<not> ends_high a \<Longrightarrow> codePoints (a @ b) = codePoints a @ codePoints b"
proof (induction a rule: codePoints.induct)
  case 1
  then show ?case by simp
next
  case (2 x)
  then show ?case by (simp add: ends_high_def codePoints_not_high)
next
  case (3 x y r)
  then show ?case by (cases "r = []") (simp_all add: ends_high_def)
qed

lemma utf8_append3:
  assumes "b \<noteq> []" "\<not> starts_low b" "\<not> ends_high b \<or> \<not> starts_low c"
  shows "utf8 (a @ b @ c) = utf8 a @ utf8 b @ utf8 c"
proof -
  have 1: "codePoints (b @ c) = codePoints b @ codePoints c"
    using assms(3) codePoints_append_not_high [of b c] codePoints_append [of c b] by blast
  have "\<not> starts_low (b @ c)"
    using assms(1,2) by (cases b) simp_all
  then have "codePoints (a @ b @ c) = codePoints a @ codePoints (b @ c)"
    by (rule codePoints_append)
  with 1 show ?thesis by (simp add: utf8_def)
qed

lemma utf8_slice:
  assumes "b \<noteq> []" "\<not> starts_low b" "\<not> ends_high b \<or> \<not> starts_low c"
  shows "take (byteLength (a @ b) - byteLength a) (drop (byteLength a) (utf8 (a @ b @ c))) = utf8 b"
proof -
  have "utf8 (a @ b) = utf8 a @ utf8 b" using assms(2) by (rule utf8_append)
  with utf8_append3 [OF assms, of a] show ?thesis by (simp add: byteLength_def)
qed

lemma render_text_acc:
  "text' (render t pos cs out fcs) = out @ text' (render t pos cs [] [])"
proof (induction cs arbitrary: pos out fcs)
  case Nil
  then show ?case by simp
next
  case (Cons c cs)
  show ?case
    by (simp add: Let_def) (subst Cons, subst (2) Cons, simp)
qed

lemma rest_starts_low:
  "\<forall>c \<in> set cs. valid_span t c \<Longrightarrow> starts_low (text' (render t pos cs [] [])) \<Longrightarrow>
     starts_low (drop pos t)"
proof (cases cs)
  case Nil
  assume "starts_low (text' (render t pos cs [] []))"
  with Nil show ?thesis by simp
next
  case (Cons c cs')
  assume v: "\<forall>c \<in> set cs. valid_span t c" and s: "starts_low (text' (render t pos cs [] []))"
  let ?gap = "take (c_start c - pos) (drop pos t)"
  let ?tok = "shown (c_kind c) (take (c_len c) (drop (c_start c) t))"
  from v Cons have vc: "valid_span t c" by simp
  have tx: "text' (render t pos cs [] []) =
          ?gap @ ?tok @ text' (render t (c_start c + c_len c) cs' [] [])"
    unfolding Cons by (simp add: Let_def) (subst render_text_acc, simp)
  show ?thesis
  proof (cases "?gap = []")
    case True
    with s tx shown_not_low [OF vc] shown_not_Nil [OF vc] show ?thesis
      by (cases ?tok) simp_all
  next
    case False
    then obtain x xs where g: "?gap = x # xs" by (cases ?gap) auto
    then obtain ys where "drop pos t = x # ys"
      by (cases "drop pos t") (auto simp: take_Cons split: nat.splits)
    with s tx g show ?thesis by simp
  qed
qed

lemma alnum_not_high: "is_alnum u \<Longrightarrow> \<not> is_high_surrogate u"
  unfolding is_alnum_def is_high_surrogate_def
  by (auto simp: word_le_nat_alt)

lemma tag_char_not_high: "is_tag_char u \<Longrightarrow> \<not> is_high_surrogate u"
  unfolding is_tag_char_def using alnum_not_high [of u]
  by (auto simp: is_high_surrogate_def)

lemma handle_of_prefix: "take (length (handle_of r)) r = handle_of r"
proof -
  let ?w = "takeWhile is_handle_char r"
  have "rev ?w = takeWhile (\<lambda>u. \<not> is_alnum u) (rev ?w) @ dropWhile (\<lambda>u. \<not> is_alnum u) (rev ?w)"
    by simp
  then have "?w = handle_of r @ rev (takeWhile (\<lambda>u. \<not> is_alnum u) (rev ?w))"
    unfolding handle_of_def by (metis rev_append rev_rev_ident)
  moreover have "r = ?w @ dropWhile is_handle_char r" by simp
  ultimately have "r = handle_of r @ (rev (takeWhile (\<lambda>u. \<not> is_alnum u) (rev ?w)) @
      dropWhile is_handle_char r)" by (metis append.assoc)
  then show ?thesis by (metis append_eq_conv_conj)
qed

lemma handle_of_last: "handle_of r \<noteq> [] \<Longrightarrow> is_alnum (last (handle_of r))"
proof -
  assume ne: "handle_of r \<noteq> []"
  let ?d = "dropWhile (\<lambda>u. \<not> is_alnum u) (rev (takeWhile is_handle_char r))"
  from ne have d: "?d \<noteq> []" by (simp add: handle_of_def)
  then have "is_alnum (hd ?d)" using hd_dropWhile [of "\<lambda>u. \<not> is_alnum u"] by blast
  with d show ?thesis by (simp add: handle_of_def last_rev)
qed

lemma takeWhile_last: "takeWhile P xs \<noteq> [] \<Longrightarrow> P (last (takeWhile P xs))"
  using set_takeWhileD [of "last (takeWhile P xs)" P xs] by simp

lemma shown_end:
  assumes v: "valid_span t c"
      and e: "ends_high (shown (c_kind c) (take (c_len c) (drop (c_start c) t)))"
  shows "\<not> starts_low (drop (c_start c + c_len c) t)"
proof (cases "c_kind c")
  case Link
  with v have m: "url_match (drop (c_start c) t) = Some (c_len c)"
    by (simp add: valid_span_def)
  from url_match_rest [OF m] show ?thesis by (simp add: add.commute)
next
  case Mention
  with v have m: "mention_match (drop (c_start c) t) = Some (c_len c)"
    by (simp add: valid_span_def)
  then obtain r where s: "drop (c_start c) t = 64 # r" and h: "handle_of r \<noteq> []"
    and n: "c_len c = Suc (length (handle_of r))"
    by (auto simp: mention_match_def split: list.splits if_splits)
  have "take (c_len c) (drop (c_start c) t) = 64 # handle_of r"
    by (simp add: s n handle_of_prefix)
  with e Mention h handle_of_last [OF h] alnum_not_high show ?thesis
    by (simp add: ends_high_def shown_def)
next
  case Hashtag
  with v have m: "hashtag_match (drop (c_start c) t) = Some (c_len c)"
    by (simp add: valid_span_def)
  then obtain r where s: "drop (c_start c) t = 35 # r" and h: "takeWhile is_tag_char r \<noteq> []"
    and n: "c_len c = Suc (length (takeWhile is_tag_char r))"
    by (auto simp: hashtag_match_def split: list.splits if_splits)
  have "take (length (takeWhile is_tag_char r)) r = takeWhile is_tag_char r"
    by (metis append_eq_conv_conj takeWhile_dropWhile_id)
  then have "take (c_len c) (drop (c_start c) t) = 35 # takeWhile is_tag_char r"
    by (simp add: s n)
  with e Hashtag h takeWhile_last [OF h] tag_char_not_high show ?thesis
    by (simp add: ends_high_def shown_def)
qed

lemma render_sits_at:
  "\<forall>c \<in> set cs. valid_span t c \<Longrightarrow>
     list_all2 (sits_at t (text' (render t pos cs out []))) cs (facets (render t pos cs out []))"
proof (induction cs arbitrary: pos out)
  case Nil
  then show ?case by simp
next
  case (Cons c cs)
  let ?head = "out @ take (c_start c - pos) (drop pos t)"
  let ?tok = "shown (c_kind c) (take (c_len c) (drop (c_start c) t))"
  let ?rest = "text' (render t (c_start c + c_len c) cs [] [])"
  from Cons.prems have v: "valid_span t c" and vs: "\<forall>c \<in> set cs. valid_span t c" by simp_all
  have tx: "text' (render t (c_start c + c_len c) cs (?head @ ?tok) []) = ?head @ ?tok @ ?rest"
    by (subst render_text_acc) simp
  have b: "\<not> ends_high ?tok \<or> \<not> starts_low ?rest"
    using shown_end [OF v] rest_starts_low [OF vs, of "c_start c + c_len c"] by blast
  have "sits_at t (text' (render t (c_start c + c_len c) cs (?head @ ?tok) [])) c
          \<lparr>index = \<lparr>byteStart = byteLength ?head, byteEnd = byteLength (?head @ ?tok)\<rparr>,
           features = [feature_of (c_kind c) (take (c_len c) (drop (c_start c) t))]\<rparr>"
    unfolding sits_at_def tx using b
    by (intro conjI exI [of _ ?head] exI [of _ ?rest]) simp_all
  with Cons.IH [OF vs, where out = "?head @ ?tok" and pos = "c_start c + c_len c"] show ?case
    by (simp add: render_Cons del: render.simps)
qed

lemma feature_text_shown:
  assumes "valid_span t c"
  shows "feature_text (feature_of (c_kind c) (take (c_len c) (drop (c_start c) t))) =
           shown (c_kind c) (take (c_len c) (drop (c_start c) t))"
proof (cases "c_kind c")
  case Link
  then show ?thesis by (simp add: feature_text_def feature_of_def shown_def)
next
  case Mention
  with assms have m: "mention_match (drop (c_start c) t) = Some (c_len c)" and l: "0 < c_len c"
    by (simp_all add: valid_span_def)
  from mention_match_head [OF m] obtain r where "drop (c_start c) t = 64 # r" by auto
  with l Mention show ?thesis
    by (cases "c_len c") (simp_all add: feature_text_def feature_of_def shown_def js_def)
next
  case Hashtag
  with assms have m: "hashtag_match (drop (c_start c) t) = Some (c_len c)" and l: "0 < c_len c"
    by (simp_all add: valid_span_def)
  from hashtag_match_head [OF m] obtain r where "drop (c_start c) t = 35 # r" by auto
  with l Hashtag show ?thesis
    by (cases "c_len c") (simp_all add: feature_text_def feature_of_def shown_def js_def)
qed

lemma detectFacets_sits_at:
  assumes "fc \<in> set (facets (detectFacets t))"
  obtains c where "valid_span t c" "sits_at t (text' (detectFacets t)) c fc"
proof -
  have v: "\<forall>c \<in> set (claimed_spans t). valid_span t c"
    using claimed_spans_valid by blast
  from list_all2_right [OF render_sits_at [OF v] assms [unfolded detectFacets_def]]
  obtain c where "c \<in> set (claimed_spans t)" "sits_at t (text' (detectFacets t)) c fc"
    by (auto simp: detectFacets_def)
  with v that show ?thesis by blast
qed

lemma detectFacets_slice:
  assumes "fc \<in> set (facets (detectFacets t))" "f \<in> set (features fc)"
  shows "feature_text f \<noteq> [] \<and>
         byteStart (index fc) + length (utf8 (feature_text f)) = byteEnd (index fc) \<and>
         take (length (utf8 (feature_text f)))
           (drop (byteStart (index fc)) (utf8 (text' (detectFacets t)))) = utf8 (feature_text f)"
proof -
  from assms(1) obtain c where v: "valid_span t c"
    and s: "sits_at t (text' (detectFacets t)) c fc" by (rule detectFacets_sits_at)
  let ?tok = "shown (c_kind c) (take (c_len c) (drop (c_start c) t))"
  from s assms(2) have f: "f = feature_of (c_kind c) (take (c_len c) (drop (c_start c) t))"
    by (simp add: sits_at_def)
  with feature_text_shown [OF v] have ft: "feature_text f = ?tok" by simp
  from s obtain head rest where tx: "text' (detectFacets t) = head @ ?tok @ rest"
    and b: "\<not> ends_high ?tok \<or> \<not> starts_low rest"
    and bs: "byteStart (index fc) = byteLength head"
    and be: "byteEnd (index fc) = byteLength (head @ ?tok)"
    by (auto simp: sits_at_def)
  note ne = shown_not_Nil [OF v] and nl = shown_not_low [OF v]
  have a: "byteLength (head @ ?tok) = byteLength head + length (utf8 ?tok)"
    using utf8_append [OF nl, of head] by (simp add: byteLength_def)
  from utf8_slice [OF ne nl b, of head] a
  have "take (length (utf8 ?tok)) (drop (byteLength head) (utf8 (head @ ?tok @ rest))) = utf8 ?tok"
    by simp
  with ne a bs be tx ft show ?thesis by simp
qed

lemma detectFacets_link_target:
  assumes "fc \<in> set (facets (detectFacets t))" "f \<in> set (features fc)"
      and "ftype f = js ''app.bsky.richtext.facet#link''"
  shows "\<exists>u p. furi f = Some u \<and> url_match (drop p t) = Some (length u) \<and>
           u = take (length u) (drop p t) \<and> feature_text f = truncateUrl u"
proof -
  from assms(1) obtain c where v: "valid_span t c"
    and s: "sits_at t (text' (detectFacets t)) c fc" by (rule detectFacets_sits_at)
  let ?u = "take (c_len c) (drop (c_start c) t)"
  from s assms(2) have f: "f = feature_of (c_kind c) ?u" by (simp add: sits_at_def)
  with assms(3) have k: "c_kind c = Link" by (simp add: link_kind)
  from v k have m: "url_match (drop (c_start c) t) = Some (c_len c)"
    by (simp add: valid_span_def)
  from f k have fu: "furi f = Some ?u" by (simp add: feature_of_def)
  from fu assms(3) have "feature_text f = truncateUrl ?u" by (simp add: feature_text_def)
  with m fu token_length [OF v] show ?thesis
    by (intro exI [of _ ?u] exI [of _ "c_start c"]) simp
qed

text \<open>
  Claim C2. The bytes from \<open>byteStart\<close> up to \<open>byteEnd\<close> of the UTF-8 encoding of the
  rewritten text are the UTF-8 encoding of the token as the text shows it (the URL as it
  is displayed, "@" and the handle, "#" and the tag), for every facet and every text.
  "Hello, world! https://example.com" comes back unchanged with one link facet at bytes
  [14,33) whose target is the URL. "Hello @alice and @bob.example.com!" has the two
  mention facets [6,12) and [17,33), in that order, before and after the resolver has
  replaced the handles. And for the text with an accented letter and an emoji before the
  URL, the facet starts at byte 8, not at the UTF-16 index 5 or at the code point 4.
\<close>

theorem detectFacets_byte_offsets:
  "(\<forall>fc \<in> set (facets (detectFacets t)). \<forall>f \<in> set (features fc).
      feature_text f \<noteq> [] \<and>
      byteStart (index fc) + length (utf8 (feature_text f)) = byteEnd (index fc) \<and>
      take (length (utf8 (feature_text f)))
        (drop (byteStart (index fc)) (utf8 (text' (detectFacets t)))) = utf8 (feature_text f)) \<and>
   detectFacets hello_link =
     \<lparr>facets = [link_facet 14 33 (js ''https://example.com'')], text' = hello_link\<rparr> \<and>
   detectFacets hello_mentions =
     \<lparr>facets = [mention_facet 6 12 (js ''alice''), mention_facet 17 33 (js ''bob.example.com'')],
      text' = hello_mentions\<rparr> \<and>
   fst (resolveMentionFacets two_handles_network example_options
          (facets (detectFacets hello_mentions)) None []) =
     [mention_facet 6 12 (js ''did:plc:alice123''), mention_facet 17 33 (js ''did:plc:bob456'')] \<and>
   detectFacets accented_link =
     \<lparr>facets = [link_facet 8 27 (js ''https://example.com'')], text' = accented_link\<rparr> \<and>
   length (takeWhile (\<lambda>u. u \<noteq> of_char CHR ''h'') accented_link) = 5 \<and>
   length (codePoints (takeWhile (\<lambda>u. u \<noteq> of_char CHR ''h'') accented_link)) = 4"
proof (intro conjI)
  show "\<forall>fc \<in> set (facets (detectFacets t)). \<forall>f \<in> set (features fc).
      feature_text f \<noteq> [] \<and>
      byteStart (index fc) + length (utf8 (feature_text f)) = byteEnd (index fc) \<and>
      take (length (utf8 (feature_text f)))
        (drop (byteStart (index fc)) (utf8 (text' (detectFacets t)))) = utf8 (feature_text f)"
    using detectFacets_slice [of _ t] by blast
  show "detectFacets hello_link =
     \<lparr>facets = [link_facet 14 33 (js ''https://example.com'')], text' = hello_link\<rparr>"
    by (rule detect_hello_link)
  show "detectFacets hello_mentions =
     \<lparr>facets = [mention_facet 6 12 (js ''alice''), mention_facet 17 33 (js ''bob.example.com'')],
      text' = hello_mentions\<rparr>"
    by (rule detect_hello_mentions)
  show "fst (resolveMentionFacets two_handles_network example_options
          (facets (detectFacets hello_mentions)) None []) =
     [mention_facet 6 12 (js ''did:plc:alice123''), mention_facet 17 33 (js ''did:plc:bob456'')]"
    by (simp add: detect_hello_mentions resolve_hello_mentions)
  show "detectFacets accented_link =
     \<lparr>facets = [link_facet 8 27 (js ''https://example.com'')], text' = accented_link\<rparr>"
    by (rule detect_accented_link)
  show "length (takeWhile (\<lambda>u. u \<noteq> of_char CHR ''h'') accented_link) = 5"
    by (simp add: accented_link_def js_def)
  show "length (codePoints (takeWhile (\<lambda>u. u \<noteq> of_char CHR ''h'') accented_link)) = 4"
    by (simp add: accented_link_def js_def is_high_surrogate_def is_low_surrogate_def)
qed

theorem detectFacets_byte_offsets_witness:
  "link_facet 14 33 (js ''https://example.com'') \<in> set (facets (detectFacets hello_link)) \<and>
   14 + length (utf8 (js ''https://example.com'')) = 33 \<and>
   take (length (utf8 (js ''https://example.com''))) (drop 14 (utf8 hello_link)) =
     utf8 (js ''https://example.com'')"
proof -
  let ?f = "\<lparr>ftype = js ''app.bsky.richtext.facet#link'', fdid = None,
             furi = Some (js ''https://example.com''), ftag = None\<rparr>"
  have m: "link_facet 14 33 (js ''https://example.com'') \<in> set (facets (detectFacets hello_link))"
    by (simp add: detect_hello_link)
  have f: "?f \<in> set (features (link_facet 14 33 (js ''https://example.com'')))"
    by (simp add: link_facet_def)
  have ft: "feature_text ?f = js ''https://example.com''"
    by (simp add: feature_text_def truncateUrl_def js_def)
  from detectFacets_byte_offsets [of hello_link] m f
  have "byteStart (index (link_facet 14 33 (js ''https://example.com''))) +
          length (utf8 (feature_text ?f)) =
        byteEnd (index (link_facet 14 33 (js ''https://example.com''))) \<and>
      take (length (utf8 (feature_text ?f)))
        (drop (byteStart (index (link_facet 14 33 (js ''https://example.com''))))
           (utf8 (text' (detectFacets hello_link)))) = utf8 (feature_text ?f)"
    by blast
  then have "14 + length (utf8 (js ''https://example.com'')) = 33"
    and "take (length (utf8 (js ''https://example.com''))) (drop 14 (utf8 hello_link)) =
     utf8 (js ''https://example.com'')"
    by (auto simp: ft detect_hello_link link_facet_def)
  with m show ?thesis by blast
qed

section \<open>Properties of the display length\<close>

lemma takeWhile_take_run:
  "takeWhile P (take (length (takeWhile P xs)) xs) = takeWhile P xs"
  by (induction xs) auto

lemma url_match_take: "url_match s = Some n \<Longrightarrow> url_match (take n s) = Some n"
proof -
  assume m: "url_match s = Some n"
  let ?P = "\<lambda>u. \<not> is_ws u"
  have run: "\<And>k. k \<le> length s \<Longrightarrow>
      drop k (take (k + length (takeWhile ?P (drop k s))) s) = takeWhile ?P (drop k s)"
  proof -
    fix k assume "k \<le> length s"
    have "drop k (take (k + length (takeWhile ?P (drop k s))) s) =
          take (length (takeWhile ?P (drop k s))) (drop k s)"
      by (simp add: drop_take)
    also have "\<dots> = takeWhile ?P (drop k s)"
      by (metis append_eq_conv_conj takeWhile_dropWhile_id)
    finally show "drop k (take (k + length (takeWhile ?P (drop k s))) s) = takeWhile ?P (drop k s)" .
  qed
  have pre: "\<And>p k. prefix p s \<Longrightarrow> length p \<le> k \<Longrightarrow> prefix p (take k s)"
    by (auto simp: prefix_def)
  show ?thesis
  proof (cases "prefix (js ''https://'') s \<and> takeWhile ?P (drop 8 s) \<noteq> []")
    case True
    with m have n: "n = 8 + length (takeWhile ?P (drop 8 s))" by (simp add: url_match_def)
    from True have l: "8 \<le> length s" by (auto dest: prefix_length_le simp: js_def)
    from True have p: "prefix (js ''https://'') (take n s)"
      by (intro pre) (simp_all add: n js_def)
    from run [OF l] have r: "drop 8 (take n s) = takeWhile ?P (drop 8 s)" by (simp add: n)
    from True p r show ?thesis by (simp add: url_match_def n)
  next
    case False
    with m have t: "prefix (js ''http://'') s" "takeWhile ?P (drop 7 s) \<noteq> []"
      and n: "n = 7 + length (takeWhile ?P (drop 7 s))"
      by (auto simp: url_match_def split: if_splits)
    from t have l: "7 \<le> length s" by (auto dest: prefix_length_le simp: js_def)
    from t have p: "prefix (js ''http://'') (take n s)"
      by (intro pre) (simp_all add: n js_def)
    from run [OF l] have r: "drop 7 (take n s) = takeWhile ?P (drop 7 s)" by (simp add: n)
    have "\<not> prefix (js ''https://'') s"
      using t(1) by (auto simp: js_def prefix_def)
    then have "\<not> prefix (js ''https://'') (take n s)"
      using take_is_prefix [of n s] by (metis prefix_order.trans)
    with p r t show ?thesis by (simp add: url_match_def n)
  qed
qed

lemma url_tokens_add_plain:
  "UrlTok u \<in> set (add_plain c ts) \<longleftrightarrow> UrlTok u \<in> set ts"
  by (cases "(c, ts)" rule: add_plain.cases) auto

lemma url_tokens_valid:
  "UrlTok u \<in> set (url_tokens m) \<Longrightarrow> url_match u = Some (length u)"
proof (induction m rule: url_tokens.induct)
  case 1
  then show ?case by simp
next
  case (2 c cs)
  show ?case
  proof (cases "url_match (c # cs)")
    case None
    with 2 show ?thesis by (simp add: url_tokens_add_plain)
  next
    case (Some n)
    from url_match_le [OF Some] have l: "length (take n (c # cs)) = n" by simp
    from 2 Some url_match_take [OF Some] l show ?thesis by auto
  qed
qed

lemma codePoints_no_high:
  "\<forall>x \<in> set s. \<not> is_high_surrogate x \<Longrightarrow> length (codePoints s) = length s"
  by (induction s) (simp_all add: length_codePoints_Cons)

section \<open>Properties of the URL of a post\<close>

text \<open>
  Claim C9, amended. For a strategy that the constructor returned:
  \<open>getUrlFromResponse\<close> throws "Post URI not found in response" when the response is
  \<open>null\<close> or \<open>undefined\<close>, has no \<open>uri\<close>, or has the empty string as its \<open>uri\<close>; when
  the \<open>uri\<close> is not empty, the result is
  \<open>https://bsky.app/profile/<identifier>/post/<r>\<close> with the identifier given at
  construction and \<open>r\<close> the part of the \<open>uri\<close> after its last "/" (the whole \<open>uri\<close>
  when it has no "/"); and the result is the same whatever host is configured.
\<close>

theorem getUrlFromResponse_url:
  assumes "new_BlueskyStrategy opts = Inr this"
  shows "getUrlFromResponse this Null = Inl (Error (js ''Post URI not found in response'')) \<and>
         getUrlFromResponse this Undefined = Inl (Error (js ''Post URI not found in response'')) \<and>
         (uri r = None \<longrightarrow>
            getUrlFromResponse this (Object r) = Inl (Error (js ''Post URI not found in response''))) \<and>
         (uri r = Some [] \<longrightarrow>
            getUrlFromResponse this (Object r) = Inl (Error (js ''Post URI not found in response''))) \<and>
         (uri r = Some (p @ js ''/'' @ rid) \<and> of_char CHR ''/'' \<notin> set rid \<longrightarrow>
            (\<exists>ident. identifier opts = Some ident \<and>
               getUrlFromResponse this (Object r) =
                 Inr (js ''https://bsky.app/profile/'' @ ident @ js ''/post/'' @ rid))) \<and>
         (uri r = Some u \<and> u \<noteq> [] \<and> of_char CHR ''/'' \<notin> set u \<longrightarrow>
            (\<exists>ident. identifier opts = Some ident \<and>
               getUrlFromResponse this (Object r) =
                 Inr (js ''https://bsky.app/profile/'' @ ident @ js ''/post/'' @ u))) \<and>
         getUrlFromResponse (this\<lparr>options := (options this)\<lparr>host := h\<rparr>\<rparr>) x =
           getUrlFromResponse this x"
proof -
  from assms obtain ident where i: "identifier opts = Some ident" and o: "options this = opts"
    by (auto simp: new_BlueskyStrategy_def truthy_def split: if_splits option.splits)
  have sl: "js ''/'' = [of_char CHR ''/'']" by (simp add: js_def)
  have a: "getUrlFromResponse this Null = Inl (Error (js ''Post URI not found in response''))"
    and b: "getUrlFromResponse this Undefined = Inl (Error (js ''Post URI not found in response''))"
    by (simp_all add: getUrlFromResponse_def)
  have c: "uri r = None \<longrightarrow>
            getUrlFromResponse this (Object r) = Inl (Error (js ''Post URI not found in response''))"
    by (simp add: getUrlFromResponse_def truthy_def)
  have c': "uri r = Some [] \<longrightarrow>
            getUrlFromResponse this (Object r) = Inl (Error (js ''Post URI not found in response''))"
    by (simp add: getUrlFromResponse_def truthy_def)
  have d: "uri r = Some (p @ js ''/'' @ rid) \<and> of_char CHR ''/'' \<notin> set rid \<longrightarrow>
            (\<exists>ident. identifier opts = Some ident \<and>
               getUrlFromResponse this (Object r) =
                 Inr (js ''https://bsky.app/profile/'' @ ident @ js ''/post/'' @ rid))"
    using last_split [of "of_char CHR ''/''" rid p]
    by (simp add: getUrlFromResponse_def truthy_def i o sl tmpl_def split_not_Nil
          del: of_char_Char)
  have e: "uri r = Some u \<and> u \<noteq> [] \<and> of_char CHR ''/'' \<notin> set u \<longrightarrow>
            (\<exists>ident. identifier opts = Some ident \<and>
               getUrlFromResponse this (Object r) =
                 Inr (js ''https://bsky.app/profile/'' @ ident @ js ''/post/'' @ u))"
    using split_no_separator [of "of_char CHR ''/''" u]
    by (simp add: getUrlFromResponse_def truthy_def i o tmpl_def del: of_char_Char)
  have f: "getUrlFromResponse (this\<lparr>options := (options this)\<lparr>host := h\<rparr>\<rparr>) x =
           getUrlFromResponse this x"
    by (simp add: getUrlFromResponse_def cong: option.case_cong)
  from a b c c' d e f show ?thesis by blast
qed

theorem getUrlFromResponse_url_witness:
  "new_BlueskyStrategy example_options = Inr example_strategy \<and>
   getUrlFromResponse example_strategy
     (Object (body_with_uri (Some (js ''at://did:plc:abcxyz/app.bsky.feed.post/123456789'')))) =
     Inr (js ''https://bsky.app/profile/testuser/post/123456789'') \<and>
   getUrlFromResponse example_strategy (Object (body_with_uri (Some (js ''abc'')))) =
     Inr (js ''https://bsky.app/profile/testuser/post/abc'') \<and>
   getUrlFromResponse example_strategy (Object (body_with_uri None)) =
     Inl (Error (js ''Post URI not found in response'')) \<and>
   getUrlFromResponse example_strategy (Object (body_with_uri (Some (js '''')))) =
     Inl (Error (js ''Post URI not found in response'')) \<and>
   getUrlFromResponse example_strategy Null =
     Inl (Error (js ''Post URI not found in response'')) \<and>
   getUrlFromResponse
     (example_strategy\<lparr>options := (options example_strategy)\<lparr>host := Some (js ''bsky.app'')\<rparr>\<rparr>)
     (Object (body_with_uri (Some (js ''abc'')))) =
     Inr (js ''https://bsky.app/profile/testuser/post/abc'')"
proof -
  have h: "new_BlueskyStrategy example_options = Inr example_strategy"
    by (simp add: new_BlueskyStrategy_def example_options_def example_strategy_def truthy_def
          js_def)
  have i: "identifier example_options = Some (js ''testuser'')"
    by (simp add: example_options_def)
  from getUrlFromResponse_url [OF h,
      of "body_with_uri (Some (js ''at://did:plc:abcxyz/app.bsky.feed.post/123456789''))"
         "js ''at://did:plc:abcxyz/app.bsky.feed.post''" "js ''123456789''"]
  have a: "getUrlFromResponse example_strategy
     (Object (body_with_uri (Some (js ''at://did:plc:abcxyz/app.bsky.feed.post/123456789'')))) =
     Inr (js ''https://bsky.app/profile/testuser/post/123456789'')"
    by (simp add: body_with_uri_def i js_def)
  from getUrlFromResponse_url [OF h, of "body_with_uri (Some (js ''abc''))" _ _ "js ''abc''"]
  have b: "getUrlFromResponse example_strategy (Object (body_with_uri (Some (js ''abc'')))) =
     Inr (js ''https://bsky.app/profile/testuser/post/abc'')"
    by (simp add: body_with_uri_def i js_def)
  from getUrlFromResponse_url [OF h, of "body_with_uri None"]
  have c: "getUrlFromResponse example_strategy (Object (body_with_uri None)) =
     Inl (Error (js ''Post URI not found in response''))"
    by (simp add: body_with_uri_def)
  from getUrlFromResponse_url [OF h, of "body_with_uri (Some (js ''''))"]
  have d: "getUrlFromResponse example_strategy (Object (body_with_uri (Some (js '''')))) =
     Inl (Error (js ''Post URI not found in response''))"
    by (simp add: body_with_uri_def js_def)
  from getUrlFromResponse_url [OF h]
  have e: "getUrlFromResponse example_strategy Null =
     Inl (Error (js ''Post URI not found in response''))"
    by blast
  from getUrlFromResponse_url [OF h, of _ _ _ _ "Some (js ''bsky.app'')"
      "Object (body_with_uri (Some (js ''abc'')))"] b
  have f: "getUrlFromResponse
     (example_strategy\<lparr>options := (options example_strategy)\<lparr>host := Some (js ''bsky.app'')\<rparr>\<rparr>)
     (Object (body_with_uri (Some (js ''abc'')))) =
     Inr (js ''https://bsky.app/profile/testuser/post/abc'')"
    by simp
  from h a b c d e f show ?thesis by blast
qed

text \<open>
  The claim as it was stated fails in two places. "For every response with a uri": the
  guard \<open>!response?.uri\<close> takes the empty string for a missing \<open>uri\<close>, so a response
  whose \<open>uri\<close> is "" throws. "The configured host never appears in the returned URL":
  the URL is built from the identifier, and with the identifier "user.bsky.social" and
  the host "bsky.social" the host is part of the URL that is returned.
\<close>

theorem getUrlFromResponse_empty_uri_counterexample:
  "uri (body_with_uri (Some [])) = Some [] \<and>
   getUrlFromResponse example_strategy (Object (body_with_uri (Some []))) =
     Inl (Error (js ''Post URI not found in response'')) \<and>
   new_BlueskyStrategy social_options = Inr social_strategy \<and>
   host social_options = Some (js ''bsky.social'') \<and>
   getUrlFromResponse social_strategy
     (Object (body_with_uri (Some (js ''at://did:plc:abcxyz/app.bsky.feed.post/123456789'')))) =
     Inr (js ''https://bsky.app/profile/'' @ js ''user.'' @ js ''bsky.social'' @
          js ''/post/123456789'')"
proof -
  have sl: "js ''/'' = [of_char CHR ''/'']" by (simp add: js_def)
  have u: "js ''at://did:plc:abcxyz/app.bsky.feed.post/123456789'' =
           js ''at://did:plc:abcxyz/app.bsky.feed.post'' @ of_char CHR ''/'' # js ''123456789''"
    by (simp add: js_def)
  have n: "of_char CHR ''/'' \<notin> set (js ''123456789'')" by (simp add: js_def)
  have l: "last (split (of_char CHR ''/'') (js ''at://did:plc:abcxyz/app.bsky.feed.post/123456789'')) =
           js ''123456789''"
    unfolding u using n by (rule last_split)
  have a: "getUrlFromResponse social_strategy
     (Object (body_with_uri (Some (js ''at://did:plc:abcxyz/app.bsky.feed.post/123456789'')))) =
     Inr (js ''https://bsky.app/profile/'' @ js ''user.'' @ js ''bsky.social'' @
          js ''/post/123456789'')"
    by (simp add: getUrlFromResponse_def body_with_uri_def truthy_def l split_not_Nil tmpl_def
          social_strategy_def social_options_def Let_def)
       (simp add: js_def)
  have b: "new_BlueskyStrategy social_options = Inr social_strategy"
    by (simp add: new_BlueskyStrategy_def social_options_def social_strategy_def truthy_def
          js_def)
  have c: "getUrlFromResponse example_strategy (Object (body_with_uri (Some []))) =
     Inl (Error (js ''Post URI not found in response''))"
    by (simp add: body_with_uri_def getUrlFromResponse_def truthy_def)
  from a b c show ?thesis by (simp add: body_with_uri_def social_options_def)
qed

section \<open>Properties of the display length, by token\<close>

lemma contribution_cases:
  "contribution =
     (\<lambda>tk. case tk of
        Plain p \<Rightarrow> length (codePoints p)
      | UrlTok u \<Rightarrow> if 27 < length u then 27 else length (codePoints u))"
  by (rule ext) (simp split: token.splits)

text \<open>
  Claim C7, amended. \<open>calculateMessageLength\<close> counts by code point after the URL
  adjustment. The URL tokens (each a match of the URL pattern) and the text between them
  make up the message, and the result is the sum over the tokens: a URL token of more
  than 27 UTF-16 code units (\<open>url.length > 27\<close>) contributes exactly 27, and every other
  token contributes its number of code points. In the UTF-16 form of a list of Unicode
  scalar values every scalar value, whether it takes one code unit or two, is one code
  point; and a string without surrogates has as many code points as code units, so that
  for a URL within the Basic Multilingual Plane the two lengths are the same.
\<close>

theorem calculateMessageLength_counts:
  "concat (map token_text (url_tokens m)) = m \<and>
   (\<forall>u. UrlTok u \<in> set (url_tokens m) \<longrightarrow> url_match u = Some (length u)) \<and>
   calculateMessageLength m =
     sum_list (map (\<lambda>tk. case tk of
                      Plain p \<Rightarrow> length (codePoints p)
                    | UrlTok u \<Rightarrow> if 27 < length u then 27 else length (codePoints u))
                 (url_tokens m)) \<and>
   (list_all is_scalar cps \<longrightarrow> length (codePoints (utf16_encode cps)) = length cps) \<and>
   ((\<forall>x \<in> set s. \<not> is_high_surrogate x) \<longrightarrow> length (codePoints s) = length s)"
proof -
  have "calculateMessageLength m = length (codePoints (replaceUrls placeholder m))"
    unfolding calculateMessageLength_def placeholder_def by (simp add: Let_def)
  then have "calculateMessageLength m = sum_list (map contribution (url_tokens m))"
    by (simp add: replaceUrls_count)
  then show ?thesis
    using url_tokens_valid [of _ m] codePoints_no_high [of s]
    by (simp add: contribution_cases url_tokens_concat codePoints_utf16_encode)
qed

lemma long_url_message_tokens:
  "url_tokens long_url_message =
     [Plain (js ''see ''), UrlTok (js ''https://example.com/very/long/path/that'')]"
  unfolding long_url_message_def by code_simp

theorem calculateMessageLength_counts_witness:
  "list_all is_scalar [0x48, 0xE9, 0x1F30D, 0x2728] \<and>
   length (codePoints (utf16_encode [0x48, 0xE9, 0x1F30D, 0x2728])) = 4 \<and>
   UrlTok (js ''https://example.com/very/long/path/that'') \<in> set (url_tokens long_url_message) \<and>
   url_match (js ''https://example.com/very/long/path/that'') = Some 39 \<and>
   length (codePoints (js ''see '')) = 4 \<and>
   calculateMessageLength long_url_message = 4 + 27"
proof -
  have s: "list_all is_scalar [0x48, 0xE9, 0x1F30D, 0x2728]"
    by (simp add: is_scalar_def)
  have m: "UrlTok (js ''https://example.com/very/long/path/that'') \<in> set (url_tokens long_url_message)"
    by (simp add: long_url_message_tokens)
  have l: "length (js ''https://example.com/very/long/path/that'') = 39" "length (js ''see '') = 4"
    "\<forall>x \<in> set (js ''see ''). \<not> is_high_surrogate x"
    by (simp_all add: js_def is_high_surrogate_def)
  from calculateMessageLength_counts [of long_url_message
      "[0x48, 0xE9, 0x1F30D, 0x2728]" "js ''see ''"] s m l
  show ?thesis by (simp add: long_url_message_tokens)
qed

text \<open>
  The claim as it was stated counts the length of a URL token, too, by Unicode scalar
  value. The code compares \<open>url.length\<close>, the number of UTF-16 code units, with 27: the
  message that is the URL ending in four emoji is one URL token of 24 scalar values,
  which is "27 or less", and it does not contribute its 24 characters but 27.
\<close>

theorem calculateMessageLength_emoji_url_counterexample:
  "url_tokens emoji_url = [UrlTok emoji_url] \<and>
   length (codePoints emoji_url) = 24 \<and>
   length emoji_url = 28 \<and>
   calculateMessageLength emoji_url = 27"
  unfolding emoji_url_def by code_simp

section \<open>Properties of the mention resolver, facet by facet\<close>

lemma resolveFeatures_plain:
  "\<forall>f \<in> set fs. mention_handle f = None \<Longrightarrow>
     resolveFeatures net opts sig fs acc tr = (acc @ fs, tr)"
  by (induction fs arbitrary: acc) simp_all

lemma resolveFacets_plain:
  assumes "features fc \<noteq> []" "\<forall>f \<in> set (features fc). mention_handle f = None"
      and "resolveMentionFacets net opts pre sig tr = (r1, tr1)"
      and "resolveMentionFacets net opts rest sig tr1 = (r2, tr2)"
  shows "resolveMentionFacets net opts (pre @ fc # rest) sig tr = (r1 @ fc # r2, tr2)"
  using assms by (simp add: resolveFacets_append resolveFacets_Cons resolveFeatures_plain)

lemma post_with_resolved:
  assumes t: "truthy (Some m)" and v: "validatePostOptions_impl rt po = Inr ()"
      and i: "images_of po = []"
      and ns: "\<forall>h. network_impl rt h (session_request (options this) (signal_of po)) =
                  Inr (ok_response sess)"
      and nr: "\<forall>h body. network_impl rt h (record_request (options this) sess (signal_of po) body) =
                  Inr (ok_response b)"
  shows "\<exists>h. post rt this (Some m) po tr =
           (Inr b, h @ [record_request (options this) sess (signal_of po)
                          (post_body rt sess m
                             (fst (resolveMentionFacets (network_impl rt) (options this)
                                     (facets (detectFacets_impl rt m)) (signal_of po)
                                     (tr @ [session_request (options this) (signal_of po)])))
                             [])])"
proof -
  let ?net = "network_impl rt" and ?o = "options this" and ?s = "signal_of po"
  from t v obtain m' where m': "Some m = Some m'" and p: "post rt this (Some m) po tr =
       (case createSession ?net ?o ?s tr of
          (Inl e, tr') \<Rightarrow> (Inl e, tr')
        | (Inr session, tr') \<Rightarrow> postMessage rt ?o session m' po tr')"
    by (rule post_accepted)
  have c: "createSession ?net ?o ?s tr = (Inr sess, tr @ [session_request ?o ?s])"
    using ns [rule_format, of tr]
    by (simp add: createSession_def fetch_def ok_response_def session_request_def)
  obtain fcs tr1 where r: "resolveMentionFacets ?net ?o (facets (detectFacets_impl rt m)) ?s
          (tr @ [session_request ?o ?s]) = (fcs, tr1)"
    by (cases "resolveMentionFacets ?net ?o (facets (detectFacets_impl rt m)) ?s
          (tr @ [session_request ?o ?s])")
  from postMessage_no_images [OF r i, of sess] p c m' nr [rule_format, of tr1]
  have "post rt this (Some m) po tr =
          (Inr b, tr1 @ [record_request ?o sess ?s (post_body rt sess m fcs [])])"
    by (simp add: outcome_of_def ok_response_def)
  with r show ?thesis by auto
qed

text \<open>
  Claim C5. \<open>resolveMentionFacets\<close> returns in every case, and for a facet \<open>fc\<close> between
  the facets \<open>pre\<close> and \<open>rest\<close> its output is the output for \<open>pre\<close>, what becomes of
  \<open>fc\<close>, and the output for \<open>rest\<close>:
  \<^item> a mention facet whose lookup fails (whatever \<open>resolveHandle\<close> throws) is dropped,
    and nothing else is;
  \<^item> a mention facet whose lookup succeeds is kept, with the result of the lookup as
    its \<open>did\<close>;
  \<^item> a facet that has features and no mention among them is kept as it is, without a
    lookup.
  The byte ranges of the output are a subsequence of the byte ranges of the input, so
  facets in ascending \<open>byteStart\<close> order stay in that order. When the session and the
  record requests are answered with 200, \<open>post\<close> succeeds whatever the lookups do, and
  the record that it submits carries the facets that \<open>resolveMentionFacets\<close> returned;
  with one mention that resolves and one that does not, in either order, that is
  exactly one facet, the resolved mention.
\<close>

theorem resolveMentionFacets_drops_unresolved:
  "(features fc = [f] \<and> mention_handle f = Some handle \<and>
    resolveMentionFacets net opts pre sig tr = (r1, tr1) \<and>
    resolveHandle net opts handle sig tr1 = (Inl e, tr2) \<and>
    resolveMentionFacets net opts rest sig tr2 = (r2, tr3) \<longrightarrow>
      resolveMentionFacets net opts (pre @ fc # rest) sig tr = (r1 @ r2, tr3)) \<and>
   (features fc = [f] \<and> mention_handle f = Some handle \<and>
    resolveMentionFacets net opts pre sig tr = (r1, tr1) \<and>
    resolveHandle net opts handle sig tr1 = (Inr d, tr2) \<and>
    resolveMentionFacets net opts rest sig tr2 = (r2, tr3) \<longrightarrow>
      resolveMentionFacets net opts (pre @ fc # rest) sig tr =
        (r1 @ fc\<lparr>features := [f\<lparr>fdid := d\<rparr>]\<rparr> # r2, tr3)) \<and>
   (features fc \<noteq> [] \<and> (\<forall>g \<in> set (features fc). mention_handle g = None) \<and>
    resolveMentionFacets net opts pre sig tr = (r1, tr1) \<and>
    resolveMentionFacets net opts rest sig tr1 = (r2, tr3) \<longrightarrow>
      resolveMentionFacets net opts (pre @ fc # rest) sig tr = (r1 @ fc # r2, tr3)) \<and>
   subseq (map index (fst (resolveMentionFacets net opts fcs sig tr))) (map index fcs) \<and>
   (sorted (map (byteStart \<circ> index) fcs) \<longrightarrow>
      sorted (map (byteStart \<circ> index) (fst (resolveMentionFacets net opts fcs sig tr)))) \<and>
   (truthy (Some m) \<and> validatePostOptions_impl rt po = Inr () \<and> images_of po = [] \<and>
    (\<forall>h. network_impl rt h (session_request (options this) (signal_of po)) =
            Inr (ok_response sess)) \<and>
    (\<forall>h body. network_impl rt h (record_request (options this) sess (signal_of po) body) =
            Inr (ok_response b)) \<longrightarrow>
      (\<exists>h. post rt this (Some m) po tr0 =
         (Inr b, h @ [record_request (options this) sess (signal_of po)
                        (post_body rt sess m
                           (fst (resolveMentionFacets (network_impl rt) (options this)
                                   (facets (detectFacets_impl rt m)) (signal_of po)
                                   (tr0 @ [session_request (options this) (signal_of po)])))
                           [])]))) \<and>
   (truthy (Some m) \<and> validatePostOptions_impl rt po = Inr () \<and> images_of po = [] \<and>
    (facets (detectFacets_impl rt m) = [fa, fb] \<or> facets (detectFacets_impl rt m) = [fb, fa]) \<and>
    features fa = [ma] \<and> mention_handle ma = Some ha \<and>
    features fb = [mb] \<and> mention_handle mb = Some hb \<and>
    (\<forall>h. network_impl rt h (session_request (options this) (signal_of po)) =
            Inr (ok_response sess)) \<and>
    (\<forall>h. fst (resolveHandle (network_impl rt) (options this) ha (signal_of po) h) = Inr dd) \<and>
    (\<forall>h. \<exists>e. fst (resolveHandle (network_impl rt) (options this) hb (signal_of po) h) = Inl e) \<and>
    (\<forall>h body. network_impl rt h (record_request (options this) sess (signal_of po) body) =
            Inr (ok_response b)) \<longrightarrow>
      (\<exists>h. post rt this (Some m) po tr0 =
         (Inr b, h @ [record_request (options this) sess (signal_of po)
                        (post_body rt sess m [fa\<lparr>features := [ma\<lparr>fdid := dd\<rparr>]\<rparr>] [])])))"
proof (intro conjI)
  show "features fc = [f] \<and> mention_handle f = Some handle \<and>
    resolveMentionFacets net opts pre sig tr = (r1, tr1) \<and>
    resolveHandle net opts handle sig tr1 = (Inl e, tr2) \<and>
    resolveMentionFacets net opts rest sig tr2 = (r2, tr3) \<longrightarrow>
      resolveMentionFacets net opts (pre @ fc # rest) sig tr = (r1 @ r2, tr3)"
    using resolveFacets_drop [of fc f handle net opts pre sig tr r1 tr1 e tr2 rest r2 tr3]
    by blast
  show "features fc = [f] \<and> mention_handle f = Some handle \<and>
    resolveMentionFacets net opts pre sig tr = (r1, tr1) \<and>
    resolveHandle net opts handle sig tr1 = (Inr d, tr2) \<and>
    resolveMentionFacets net opts rest sig tr2 = (r2, tr3) \<longrightarrow>
      resolveMentionFacets net opts (pre @ fc # rest) sig tr =
        (r1 @ fc\<lparr>features := [f\<lparr>fdid := d\<rparr>]\<rparr> # r2, tr3)"
    using resolveFacets_keep [of fc f handle net opts pre sig tr r1 tr1 d tr2 rest r2 tr3]
    by blast
  show "features fc \<noteq> [] \<and> (\<forall>g \<in> set (features fc). mention_handle g = None) \<and>
    resolveMentionFacets net opts pre sig tr = (r1, tr1) \<and>
    resolveMentionFacets net opts rest sig tr1 = (r2, tr3) \<longrightarrow>
      resolveMentionFacets net opts (pre @ fc # rest) sig tr = (r1 @ fc # r2, tr3)"
    using resolveFacets_plain [of fc net opts pre sig tr r1 tr1 rest r2 tr3]
    by blast
  show "subseq (map index (fst (resolveMentionFacets net opts fcs sig tr))) (map index fcs)"
    by (rule resolveFacets_index_subseq)
  show "sorted (map (byteStart \<circ> index) fcs) \<longrightarrow>
      sorted (map (byteStart \<circ> index) (fst (resolveMentionFacets net opts fcs sig tr)))"
    using resolveFacets_sorted [of fcs net opts sig tr] by blast
  show "truthy (Some m) \<and> validatePostOptions_impl rt po = Inr () \<and> images_of po = [] \<and>
    (\<forall>h. network_impl rt h (session_request (options this) (signal_of po)) =
            Inr (ok_response sess)) \<and>
    (\<forall>h body. network_impl rt h (record_request (options this) sess (signal_of po) body) =
            Inr (ok_response b)) \<longrightarrow>
      (\<exists>h. post rt this (Some m) po tr0 =
         (Inr b, h @ [record_request (options this) sess (signal_of po)
                        (post_body rt sess m
                           (fst (resolveMentionFacets (network_impl rt) (options this)
                                   (facets (detectFacets_impl rt m)) (signal_of po)
                                   (tr0 @ [session_request (options this) (signal_of po)])))
                           [])]))"
    using post_with_resolved [of m rt po this sess b tr0] by blast
  show "truthy (Some m) \<and> validatePostOptions_impl rt po = Inr () \<and> images_of po = [] \<and>
    (facets (detectFacets_impl rt m) = [fa, fb] \<or> facets (detectFacets_impl rt m) = [fb, fa]) \<and>
    features fa = [ma] \<and> mention_handle ma = Some ha \<and>
    features fb = [mb] \<and> mention_handle mb = Some hb \<and>
    (\<forall>h. network_impl rt h (session_request (options this) (signal_of po)) =
            Inr (ok_response sess)) \<and>
    (\<forall>h. fst (resolveHandle (network_impl rt) (options this) ha (signal_of po) h) = Inr dd) \<and>
    (\<forall>h. \<exists>e. fst (resolveHandle (network_impl rt) (options this) hb (signal_of po) h) = Inl e) \<and>
    (\<forall>h body. network_impl rt h (record_request (options this) sess (signal_of po) body) =
            Inr (ok_response b)) \<longrightarrow>
      (\<exists>h. post rt this (Some m) po tr0 =
         (Inr b, h @ [record_request (options this) sess (signal_of po)
                        (post_body rt sess m [fa\<lparr>features := [ma\<lparr>fdid := dd\<rparr>]\<rparr>] [])]))"
    using post_one_of_two_mentions [of m rt po fa fb ma ha mb hb this sess dd b tr0]
    by blast
qed

theorem resolveMentionFacets_drops_unresolved_witness:
  "resolveMentionFacets mention_network example_options link_and_mentions None [] =
     ([\<lparr>index = \<lparr>byteStart = 0, byteEnd = 19\<rparr>,
        features = [\<lparr>ftype = js ''app.bsky.richtext.facet#link'', fdid = None,
                     furi = Some (js ''https://example.com''), ftag = None\<rparr>]\<rparr>,
       (mention_facet 20 26 (js ''alice''))
         \<lparr>features := [(mention_feature (js ''alice''))\<lparr>fdid := Some (js ''did:plc:alice123'')\<rparr>]\<rparr>],
      [lookup_request example_options (js ''alice'') None,
       lookup_request example_options (js ''nonexistent'') None]) \<and>
   sorted (map (byteStart \<circ> index) link_and_mentions) \<and>
   sorted (map (byteStart \<circ> index)
     (fst (resolveMentionFacets mention_network example_options link_and_mentions None []))) \<and>
   (\<exists>h. post mention_runtime example_strategy (Some (js ''Hello @alice and @nonexistent!''))
          Undefined [] =
        (Inr (body_with_uri (Some (js ''at://did:plc:abcxyz/app.bsky.feed.post/abcxyz''))),
         h @ [record_request example_options example_session None
                (post_body mention_runtime example_session (js ''Hello @alice and @nonexistent!'')
                   [(mention_facet 6 12 (js ''alice''))
                      \<lparr>features := [(mention_feature (js ''alice''))
                                      \<lparr>fdid := Some (js ''did:plc:alice123'')\<rparr>]\<rparr>] [])]))"
proof -
  let ?lk = "\<lparr>index = \<lparr>byteStart = 0, byteEnd = 19\<rparr>,
        features = [\<lparr>ftype = js ''app.bsky.richtext.facet#link'', fdid = None,
                     furi = Some (js ''https://example.com''), ftag = None\<rparr>]\<rparr>"
  let ?ga = "mention_facet 20 26 (js ''alice'')" and ?gb = "mention_facet 27 39 (js ''nonexistent'')"
  let ?fa = "mention_facet 6 12 (js ''alice'')" and ?fb = "mention_facet 17 29 (js ''nonexistent'')"
  let ?ma = "mention_feature (js ''alice'')" and ?mb = "mention_feature (js ''nonexistent'')"
  let ?la = "lookup_request example_options (js ''alice'') None"
  let ?lb = "lookup_request example_options (js ''nonexistent'') None"
  let ?e = "Error (failure_message not_found_response
                     (js ''Failed to resolve handle '' @ [0x22] @ js ''nonexistent'' @ [0x22])
                     \<lparr>did = None, accessJwt = None, blob = None,
                      error = Some (js ''InvalidRequest''), message = Some (js ''Handle not found''),
                      uri = None, cid = None\<rparr>)"
  have ha: "mention_handle ?ma = Some (js ''alice'')"
    and hb: "mention_handle ?mb = Some (js ''nonexistent'')"
    by (simp_all add: mention_handle_def mention_feature_def truthy_def js_def)
  have fa: "features ?fa = [?ma]" and fb: "features ?fb = [?mb]"
    and ga: "features ?ga = [?ma]" and gb: "features ?gb = [?mb]"
    by (simp_all add: mention_facet_def)
  have lk: "features ?lk \<noteq> []" "\<forall>g \<in> set (features ?lk). mention_handle g = None"
    by (simp_all add: mention_handle_def js_def)
  have ra: "\<And>h. resolveHandle mention_network example_options (js ''alice'') None h =
              (Inr (Some (js ''did:plc:alice123'')), h @ [?la])"
    by (simp add: resolveHandle_def fetch_def mention_network_def ok_response_def
          lookup_request_def)
  have rb: "\<And>h. resolveHandle mention_network example_options (js ''nonexistent'') None h =
              (Inl ?e, h @ [?lb])"
    by (simp add: resolveHandle_def fetch_def mention_network_def not_found_response_def
          lookup_request_def js_def)
  have nil: "\<And>h. resolveMentionFacets mention_network example_options [] None h = ([], h)"
    by simp
  from resolveMentionFacets_drops_unresolved [where fc = ?gb and f = ?mb
      and handle = "js ''nonexistent''" and net = mention_network and opts = example_options
      and pre = "[]" and sig = None and tr = "[?la]" and ?tr1.0 = "[?la]" and e = ?e
      and ?tr2.0 = "[?la, ?lb]" and rest = "[]" and ?r2.0 = "[]" and ?tr3.0 = "[?la, ?lb]"
      and ?r1.0 = "[]"]
    gb hb rb [of "[?la]"] nil
  have dropped: "resolveMentionFacets mention_network example_options [?gb] None [?la] =
     ([], [?la, ?lb])"
    by simp
  from resolveMentionFacets_drops_unresolved [where fc = ?ga and f = ?ma
      and handle = "js ''alice''" and net = mention_network and opts = example_options
      and pre = "[]" and sig = None and tr = "[]" and ?tr1.0 = "[]"
      and d = "Some (js ''did:plc:alice123'')"
      and ?tr2.0 = "[?la]" and rest = "[?gb]" and ?r2.0 = "[]" and ?tr3.0 = "[?la, ?lb]"
      and ?r1.0 = "[]"]
    ga ha ra [of "[]"] nil dropped
  have kept: "resolveMentionFacets mention_network example_options [?ga, ?gb] None [] =
     ([?ga\<lparr>features := [?ma\<lparr>fdid := Some (js ''did:plc:alice123'')\<rparr>]\<rparr>], [?la, ?lb])"
    by simp
  from resolveMentionFacets_drops_unresolved [where fc = ?lk
      and net = mention_network and opts = example_options
      and pre = "[]" and sig = None and tr = "[]" and ?tr1.0 = "[]"
      and rest = "[?ga, ?gb]"
      and ?r2.0 = "[?ga\<lparr>features := [?ma\<lparr>fdid := Some (js ''did:plc:alice123'')\<rparr>]\<rparr>]"
      and ?tr3.0 = "[?la, ?lb]" and ?r1.0 = "[]"]
    lk nil kept
  have one: "resolveMentionFacets mention_network example_options link_and_mentions None [] =
     ([?lk, ?ga\<lparr>features := [?ma\<lparr>fdid := Some (js ''did:plc:alice123'')\<rparr>]\<rparr>], [?la, ?lb])"
    by (simp add: link_and_mentions_def)
  have so: "sorted (map (byteStart \<circ> index) link_and_mentions)"
    by (simp add: link_and_mentions_def mention_facet_def)
  have "sorted (map (byteStart \<circ> index) link_and_mentions) \<longrightarrow>
     sorted (map (byteStart \<circ> index)
       (fst (resolveMentionFacets mention_network example_options link_and_mentions None [])))"
    by (rule resolveMentionFacets_drops_unresolved [where fcs = link_and_mentions
      and net = mention_network and opts = example_options and sig = None and tr = "[]",
      THEN conjunct2, THEN conjunct2, THEN conjunct2, THEN conjunct2, THEN conjunct1])
  with so have so': "sorted (map (byteStart \<circ> index)
     (fst (resolveMentionFacets mention_network example_options link_and_mentions None [])))"
    by simp
  have o: "options example_strategy = example_options" by (simp add: example_strategy_def)
  have n: "network_impl mention_runtime = mention_network" by (simp add: mention_runtime_def)
  have d: "facets (detectFacets_impl mention_runtime (js ''Hello @alice and @nonexistent!'')) =
             [?fa, ?fb]"
    by (simp add: mention_runtime_def)
  have t: "truthy (Some (js ''Hello @alice and @nonexistent!''))"
    by (simp add: truthy_def js_def)
  have v: "validatePostOptions_impl mention_runtime Undefined = Inr ()"
    by (simp add: mention_runtime_def validatePostOptions_def)
  have i: "images_of Undefined = []" and s: "signal_of Undefined = None"
    by (simp_all add: images_of_def signal_of_def)
  have ns: "\<forall>h. mention_network h (session_request example_options None) =
             Inr (ok_response example_session)"
    by (simp add: mention_network_def session_request_def getResolveHandleUrl_def
          getCreateSessionUrl_def getPostMessageUrl_def js_def)
  have nr: "\<forall>h body. mention_network h (record_request example_options example_session None body) =
             Inr (ok_response (body_with_uri (Some (js ''at://did:plc:abcxyz/app.bsky.feed.post/abcxyz''))))"
    by (simp add: mention_network_def record_request_def getResolveHandleUrl_def
          getPostMessageUrl_def js_def)
  from resolveMentionFacets_drops_unresolved [where rt = mention_runtime and po = Undefined
      and m = "js ''Hello @alice and @nonexistent!''" and fa = ?fa and fb = ?fb and ma = ?ma
      and mb = ?mb and ha = "js ''alice''" and hb = "js ''nonexistent''" and this = example_strategy
      and sess = example_session and dd = "Some (js ''did:plc:alice123'')" and ?tr0.0 = "[]"
      and b = "body_with_uri (Some (js ''at://did:plc:abcxyz/app.bsky.feed.post/abcxyz''))"]
    t v i d fa fb ha hb ns nr ra rb
  have two: "\<exists>h. post mention_runtime example_strategy (Some (js ''Hello @alice and @nonexistent!''))
          Undefined [] =
        (Inr (body_with_uri (Some (js ''at://did:plc:abcxyz/app.bsky.feed.post/abcxyz''))),
         h @ [record_request example_options example_session None
                (post_body mention_runtime example_session (js ''Hello @alice and @nonexistent!'')
                   [?fa\<lparr>features := [?ma\<lparr>fdid := Some (js ''did:plc:alice123'')\<rparr>]\<rparr>] [])])"
    by (simp add: o n s)
  from one so so' two show ?thesis by blast
qed

section \<open>Properties of the rewritten text\<close>


lemma chain_le: "chain lo hi cs \<Longrightarrow> lo \<le> hi"
proof (induction cs arbitrary: lo)
  case Nil
  then show ?case by simp
next
  case (Cons c cs)
  from Cons.prems Cons.IH [of "c_start c + c_len c"] show ?case by simp
qed











section \<open>Properties of the claimed spans\<close>
















section \<open>Properties of the claimed URL tokens\<close>















section \<open>Properties of the URL truncation\<close>










end
